theory Spec2Isabelle
  imports Complex_Main
begin

section \<open>JavaScript strings\<close>

text \<open>
  A string is a list of UTF-16 code units; the model covers the code units
  U+0000 .. U+00FF, one \<^typ>\<open>char\<close> each.  On that range the regular-expression
  classes and \<open>toLowerCase\<close> are written out exactly: \<open>\w\<close> is \<open>[A-Za-z0-9_]\<close>,
  \<open>\s\<close> is TAB, LF, VT, FF, CR, SPACE and NBSP, and \<open>toLowerCase\<close> maps
  \<open>A-Z\<close> and U+00C0 .. U+00DE (without U+00D7) to the letter 32 places up.
\<close>

definition is_word_char :: "char \<Rightarrow> bool" where
  "is_word_char c =
     (let n = (of_char c :: nat)
      in (48 \<le> n \<and> n \<le> 57) \<or> (65 \<le> n \<and> n \<le> 90) \<or> n = 95 \<or> (97 \<le> n \<and> n \<le> 122))"

definition is_space_char :: "char \<Rightarrow> bool" where
  "is_space_char c =
     (let n = (of_char c :: nat)
      in (9 \<le> n \<and> n \<le> 13) \<or> n = 32 \<or> n = 160)"

definition lower_char :: "char \<Rightarrow> char" where
  "lower_char c =
     (let n = (of_char c :: nat)
      in if (65 \<le> n \<and> n \<le> 90) \<or> (192 \<le> n \<and> n \<le> 222 \<and> n \<noteq> 215)
         then char_of (n + 32) else c)"

definition toLowerCase :: "string \<Rightarrow> string" where
  "toLowerCase s = map lower_char s"

text \<open>
  \<open>s.replace(/[^\w\s]+/g, " ")\<close>: every maximal run of characters that are neither
  word characters nor white space becomes one space.  The flag says that the
  previous character belonged to such a run.
\<close>

fun replace_runs :: "bool \<Rightarrow> string \<Rightarrow> string" where
  "replace_runs inrun [] = []"
| "replace_runs inrun (c # cs) =
     (if is_word_char c \<or> is_space_char c then c # replace_runs False cs
      else if inrun then replace_runs True cs
      else CHR '' '' # replace_runs True cs)"

definition replace_nonword :: "string \<Rightarrow> string" where
  "replace_nonword s = replace_runs False s"

text \<open>
  \<open>s.split(/\s+/)\<close>: the pieces between maximal runs of white space, with the
  empty pieces JavaScript produces at either end (\<open>"".split(/\s+/)\<close> is \<open>[""]\<close>).
\<close>

fun split_ws :: "string \<Rightarrow> string list" where
  "split_ws [] = ['''']"
| "split_ws [c] = (if is_space_char c then ['''', ''''] else [c] # [])"
| "split_ws (c # d # ds) =
     (if is_space_char c
      then (if is_space_char d then split_ws (d # ds) else [] # split_ws (d # ds))
      else (case split_ws (d # ds) of
              [] \<Rightarrow> [c] # []
            | w # ws \<Rightarrow> (c # w) # ws))"

text \<open>\<open>ws.join(" ")\<close>\<close>

fun join_space :: "string list \<Rightarrow> string" where
  "join_space [] = []"
| "join_space [w] = w"
| "join_space (w # v # ws) = w @ CHR '' '' # join_space (v # ws)"

text \<open>\<open>s.trim()\<close>\<close>

definition trim :: "string \<Rightarrow> string" where
  "trim s = rev (dropWhile is_space_char (rev (dropWhile is_space_char s)))"

text \<open>\<open>s.includes(sub)\<close>\<close>

fun str_includes :: "string \<Rightarrow> string \<Rightarrow> bool" where
  "str_includes [] sub = (sub = [])"
| "str_includes (c # cs) sub = (take (length sub) (c # cs) = sub \<or> str_includes cs sub)"

text \<open>\<open>s.replace(/"/g, '""')\<close>\<close>

definition double_quotes :: "string \<Rightarrow> string" where
  "double_quotes s = concat (map (\<lambda>c. if c = CHR 0x22 then [CHR 0x22, CHR 0x22] else [c]) s)"

section \<open>config.ts: the two word sets\<close>

definition STOP_WORDS :: "string list" where
  "STOP_WORDS = [
    ''a'', ''an'', ''the'', ''and'', ''or'', ''but'', ''nor'', ''for'', ''yet'', ''so'',
    ''in'', ''on'', ''at'', ''to'', ''from'', ''with'', ''by'', ''about'', ''against'',
    ''between'', ''into'', ''through'', ''during'', ''before'', ''after'', ''above'',
    ''below'', ''up'', ''down'', ''out'', ''off'', ''over'', ''under'', ''i'', ''me'',
    ''my'', ''myself'', ''we'', ''our'', ''ours'', ''ourselves'', ''you'', ''your'',
    ''yours'', ''yourself'', ''yourselves'', ''he'', ''him'', ''his'', ''himself'',
    ''she'', ''her'', ''hers'', ''herself'', ''it'', ''its'', ''itself'', ''they'',
    ''them'', ''their'', ''theirs'', ''themselves'', ''is'', ''am'', ''are'', ''was'',
    ''were'', ''be'', ''been'', ''being'', ''have'', ''has'', ''had'', ''having'', ''do'',
    ''does'', ''did'', ''doing'', ''this'', ''that'', ''these'', ''those'', ''what'',
    ''which'', ''who'', ''whom'', ''whose'', ''when'', ''where'', ''why'', ''how'',
    ''all'', ''both'', ''each'', ''few'', ''more'', ''most'', ''other'', ''some'',
    ''such'', ''only'', ''very'', ''can'', ''will'', ''just'', ''should'', ''could'',
    ''would'', ''may'', ''might'', ''must'', ''shall'', ''not'', ''no'', ''yes'']"

definition COMMON_TERMS :: "string list" where
  "COMMON_TERMS = [
    ''post'', ''posts'', ''user'', ''users'', ''comment'', ''comments'', ''like'',
    ''likes'', ''share'', ''shares'', ''view'', ''views'', ''video'', ''videos'',
    ''image'', ''images'', ''photo'', ''photos'', ''picture'', ''pictures'', ''meme'',
    ''memes'', ''funny'', ''lol'', ''lmao'', ''fun'', ''joke'', ''jokes'', ''humor'',
    ''humour'', ''viral'', ''trending'', ''hot'', ''new'', ''best'', ''top'', ''popular'',
    ''epic'', ''awesome'', ''amazing'', ''great'', ''good'', ''bad'', ''wtf'', ''omg'',
    ''cat'', ''cats'', ''dog'', ''dogs'', ''pet'', ''pets'', ''animal'', ''animals'',
    ''today'', ''yesterday'', ''tomorrow'', ''now'', ''latest'', ''recent'', ''old'',
    ''year'', ''month'', ''day'', ''time'', ''content'', ''thing'', ''things'', ''stuff'',
    ''item'', ''items'', ''one'', ''two'', ''first'', ''last'', ''next'']"

section \<open>content-processor.ts\<close>

text \<open>The words of a string: \<open>.split(/\s+/).filter((word) => word.length > 0)\<close>.\<close>

definition nonempty_pieces :: "string \<Rightarrow> string list" where
  "nonempty_pieces s = filter (\<lambda>word. length word > 0) (split_ws s)"

definition keep_content_word :: "string \<Rightarrow> bool" where
  "keep_content_word word =
     (length word \<ge> 2 \<and> length word \<le> 50
      \<and> word \<notin> set STOP_WORDS \<and> word \<notin> set COMMON_TERMS)"

definition preprocessContent :: "string \<Rightarrow> string" where
  "preprocessContent content =
     (if content = [] then []
      else
        let words = nonempty_pieces (replace_nonword (toLowerCase content));
            filteredWords = filter keep_content_word words
        in trim (join_space filteredWords))"

definition keep_query_word :: "string \<Rightarrow> bool" where
  "keep_query_word word =
     (let lowerWord = toLowerCase word
      in length lowerWord \<ge> 2 \<and> lowerWord \<notin> set STOP_WORDS)"

definition preprocessQuery :: "string \<Rightarrow> string" where
  "preprocessQuery query =
     (if query = [] then []
      else
        let words = nonempty_pieces (replace_nonword query);
            filteredWords = filter keep_query_word words
        in trim (join_space filteredWords))"

datatype cost = Low | Medium | High

record query_analysis =
  isValid :: bool
  isTooCommon :: bool
  commonTermsRatio :: real
  estimatedCost :: cost
  reason :: "string option"

text \<open>
  The ratio is a quotient of two word counts.  It is kept as an exact real: for
  counts below \<open>2^50\<close> the comparisons of the IEEE double with \<open>0\<close>, \<open>0.5\<close> and
  \<open>0.8\<close> have the same outcome as the exact ones.
\<close>

definition analyzeQuery :: "string \<Rightarrow> query_analysis" where
  "analyzeQuery query =
     (if query = [] then
        \<lparr>isValid = False, isTooCommon = False, commonTermsRatio = 0, estimatedCost = Low,
         reason = Some ''Empty or invalid query''\<rparr>
      else
        let words = nonempty_pieces (replace_nonword (toLowerCase query))
        in if length words = 0 then
             \<lparr>isValid = False, isTooCommon = False, commonTermsRatio = 0, estimatedCost = Low,
              reason = Some ''No valid search terms''\<rparr>
           else
             let commonTermCount =
                   length (filter (\<lambda>word. word \<in> set STOP_WORDS \<or> word \<in> set COMMON_TERMS) words);
                 ratio = real commonTermCount / real (length words);
                 tooCommon = (ratio > 8 / 10);
                 estimated = (if ratio = 0 then Low else if ratio < 1 / 2 then Medium else High)
             in \<lparr>isValid = True, isTooCommon = tooCommon, commonTermsRatio = ratio,
                 estimatedCost = estimated,
                 reason = (if tooCommon then Some ''Query contains too many common terms'' else None)\<rparr>)"


section \<open>types.ts\<close>

text \<open>
  A JavaScript value as far as the shard inspects it: a string, a number, or
  anything else (\<open>undefined\<close>, \<open>null\<close>, a boolean, an object).  A document that
  arrives over RPC is either not an object at all or an object whose \<open>id\<close> and
  \<open>content\<close> fields hold such values.
\<close>

datatype js_value = JString string | JNumber real | JOther

datatype document = NotAnObject | Doc (doc_id: js_value) (doc_content: js_value)

datatype id_type = StringId | IntegerId

datatype replica_type = RegionReplica | LocalReplica

record ReplicaInfo =
  replica_type :: replica_type
  replica_name :: "string option"
  replica_id :: "string option"

text \<open>
  \<open>ConfigureRequest\<close> and \<open>DOConfig\<close> have the same optional fields; \<open>None\<close> is an
  absent field.  Numbers in the configuration are integers.
\<close>

record DOConfig =
  alarmIntervalMs :: "int option"
  purgeThresholdDocs :: "int option"
  purgeTargetDocs :: "int option"
  coldStoragePrefix :: "string option"
  coldStorageThresholdDocs :: "int option"
  replicas :: "ReplicaInfo list option"
  isReadOnly :: "bool option"
  currentColdStorageIndex :: "int option"
  idType :: "id_type option"

definition empty_config :: DOConfig where
  "empty_config =
     \<lparr>alarmIntervalMs = None, purgeThresholdDocs = None, purgeTargetDocs = None,
      coldStoragePrefix = None, coldStorageThresholdDocs = None, replicas = None,
      isReadOnly = None, currentColdStorageIndex = None, idType = None\<rparr>"

text \<open>JavaScript truthiness and \<open>a || b\<close> on optional numbers, strings and booleans.\<close>

definition truthy_num :: "int option \<Rightarrow> bool" where
  "truthy_num x = (case x of None \<Rightarrow> False | Some v \<Rightarrow> v \<noteq> 0)"

definition num_or :: "int option \<Rightarrow> int \<Rightarrow> int" where
  "num_or x d = (if truthy_num x then the x else d)"

definition truthy_str :: "string option \<Rightarrow> bool" where
  "truthy_str x = (case x of None \<Rightarrow> False | Some v \<Rightarrow> v \<noteq> [])"

definition str_or :: "string option \<Rightarrow> string \<Rightarrow> string" where
  "str_or x d = (if truthy_str x then the x else d)"

definition truthy_bool :: "bool option \<Rightarrow> bool" where
  "truthy_bool x = (x = Some True)"

definition idType_or_string :: "DOConfig \<Rightarrow> id_type" where
  "idType_or_string cfg = (case idType cfg of None \<Rightarrow> StringId | Some t \<Rightarrow> t)"

text \<open>The object spread \<open>{ ...config, ...newConfig }\<close>: a present field of the request wins.\<close>

definition spread :: "'a option \<Rightarrow> 'a option \<Rightarrow> 'a option" where
  "spread old new = (case new of None \<Rightarrow> old | Some v \<Rightarrow> Some v)"

definition merge_config :: "DOConfig \<Rightarrow> DOConfig \<Rightarrow> DOConfig" where
  "merge_config cfg newConfig =
     \<lparr>alarmIntervalMs = spread (alarmIntervalMs cfg) (alarmIntervalMs newConfig),
      purgeThresholdDocs = spread (purgeThresholdDocs cfg) (purgeThresholdDocs newConfig),
      purgeTargetDocs = spread (purgeTargetDocs cfg) (purgeTargetDocs newConfig),
      coldStoragePrefix = spread (coldStoragePrefix cfg) (coldStoragePrefix newConfig),
      coldStorageThresholdDocs =
        spread (coldStorageThresholdDocs cfg) (coldStorageThresholdDocs newConfig),
      replicas = spread (replicas cfg) (replicas newConfig),
      isReadOnly = spread (isReadOnly cfg) (isReadOnly newConfig),
      currentColdStorageIndex =
        spread (currentColdStorageIndex cfg) (currentColdStorageIndex newConfig),
      idType = spread (idType cfg) (idType newConfig)\<rparr>"

record ValidationError =
  field :: string
  message :: string

record validation_result =
  valid :: bool
  data :: "document list option"
  errors :: "ValidationError list"

text \<open>\<open>Number.isInteger\<close> on a number.\<close>

definition isInteger :: "real \<Rightarrow> bool" where
  "isInteger r = (of_int \<lfloor>r\<rfloor> = r)"

definition id_errors :: "js_value \<Rightarrow> id_type \<Rightarrow> ValidationError list" where
  "id_errors v t =
     (case t of
        IntegerId \<Rightarrow>
          (case v of
             JNumber r \<Rightarrow>
               if \<not> isInteger r \<or> r < 0
               then [\<lparr>field = ''id'', message = ''ID must be a non-negative integer''\<rparr>]
               else []
           | _ \<Rightarrow> [\<lparr>field = ''id'', message = ''ID must be a non-negative integer''\<rparr>])
      | StringId \<Rightarrow>
          (case v of
             JString s \<Rightarrow>
               if length s = 0 then [\<lparr>field = ''id'', message = ''ID cannot be empty''\<rparr>]
               else if length s > 255
               then [\<lparr>field = ''id'', message = ''ID cannot be longer than 255 characters''\<rparr>]
               else []
           | _ \<Rightarrow> [\<lparr>field = ''id'', message = ''ID must be a string''\<rparr>]))"

definition content_errors :: "js_value \<Rightarrow> ValidationError list" where
  "content_errors v =
     (case v of
        JString s \<Rightarrow>
          if length s = 0 then [\<lparr>field = ''content'', message = ''Content cannot be empty''\<rparr>]
          else []
      | _ \<Rightarrow> [\<lparr>field = ''content'', message = ''Content must be a string''\<rparr>])"

text \<open>\<open>validateDocument\<close> returns its error list; the document is valid when the list is empty.\<close>

fun validateDocument :: "document \<Rightarrow> id_type \<Rightarrow> ValidationError list" where
  "validateDocument NotAnObject t =
     [\<lparr>field = ''document'', message = ''Document must be an object''\<rparr>]"
| "validateDocument (Doc i c) t = id_errors i t @ content_errors c"

function decimal :: "nat \<Rightarrow> string" where
  "decimal n = (if n < 10 then [char_of (48 + n)] else decimal (n div 10) @ [char_of (48 + n mod 10)])"
  by pat_completeness auto
termination
  by (relation "measure id") auto

declare decimal.simps [simp del]

text \<open>
  The \<open>forEach\<close> of \<open>validateDocuments\<close>, from position \<open>index\<close> on: the valid documents
  in order, and the errors with the position written into the field name.
\<close>

fun validate_each :: "nat \<Rightarrow> document list \<Rightarrow> id_type \<Rightarrow> document list \<times> ValidationError list" where
  "validate_each index [] t = ([], [])"
| "validate_each index (doc # docs) t =
     (let (validDocuments, errs) = validate_each (Suc index) docs t;
          result = validateDocument doc t
      in if result = [] then (doc # validDocuments, errs)
         else (validDocuments,
               map (\<lambda>e. e\<lparr>field := ''documents['' @ decimal index @ ''].'' @ field e\<rparr>) result @ errs))"

definition validateDocuments :: "document list \<Rightarrow> id_type \<Rightarrow> validation_result" where
  "validateDocuments docs t =
     (if length docs = 0 then \<lparr>valid = True, data = Some [], errors = []\<rparr>
      else
        let (validDocuments, errs) = validate_each 0 docs t
        in \<lparr>valid = (length errs = 0),
            data = (if length validDocuments > 0 then Some validDocuments else None),
            errors = errs\<rparr>)"

record IndexResult =
  success :: bool
  indexed :: nat
  error :: "string option"
  details :: "string option"
  error_list :: "ValidationError list"

record SyncResult =
  sync_success :: bool
  synced :: nat
  sync_error :: "string option"
  sync_details :: "string option"
  sync_error_list :: "ValidationError list"

record SearchResult =
  result_id :: js_value
  result_content :: string
  rank :: real

record DOStats =
  count :: nat
  estimatedSize :: int
  stats_isReadOnly :: "bool option"

text \<open>\<open>includeCold\<close> and \<open>maxResults\<close> are optional; \<open>maxResults\<close> is a count.\<close>

record SearchParams =
  query :: string
  includeCold :: "bool option"
  maxResults :: "nat option"


section \<open>The SQLite store of a shard\<close>

text \<open>
  A row of the FTS5 table \<open>documents\<close>.  The constructor runs \<open>initialize\<close> before the
  object has a configuration, so the table is created with the columns \<open>id\<close> and
  \<open>content\<close> whatever \<open>idType\<close> is set later.  In string mode the store assigns the
  next row id and the document id is kept in the column \<open>id\<close>.  In integer mode
  \<open>REPLACE INTO documents(rowid, content)\<close> makes the document id the row id and
  leaves the column \<open>id\<close> \<open>NULL\<close>, which reads back as \<open>null\<close>: the value
  \<^const>\<open>JOther\<close>.
\<close>

record SQLDocument =
  rowid :: int
  id_col :: js_value
  content :: string

datatype sql_stmt =
    ReplaceRows "(int \<times> string) list"
  | DeleteIds "js_value list"
  | InsertRows "(js_value \<times> string) list"
  | MatchQuery string nat
  | CountRows
  | SelectSince int
  | SelectOldest int
  | DeleteUpTo int

definition next_rowid :: "SQLDocument list \<Rightarrow> int" where
  "next_rowid rows = fold max (map rowid rows) 0 + 1"

definition replace_row :: "int \<times> string \<Rightarrow> SQLDocument list \<Rightarrow> SQLDocument list" where
  "replace_row p rows =
     filter (\<lambda>r. rowid r \<noteq> fst p) rows
       @ [\<lparr>rowid = fst p, id_col = JOther, content = snd p\<rparr>]"

definition insert_row :: "js_value \<times> string \<Rightarrow> SQLDocument list \<Rightarrow> SQLDocument list" where
  "insert_row p rows = rows @ [\<lparr>rowid = next_rowid rows, id_col = fst p, content = snd p\<rparr>]"

text \<open>
  What a statement does to the table; the reading statements leave it as it is.
  In \<open>DELETE FROM documents WHERE id IN (...)\<close> a row whose \<open>id\<close> is \<open>NULL\<close> equals
  none of the values and stays.
\<close>

fun apply_stmt :: "sql_stmt \<Rightarrow> SQLDocument list \<Rightarrow> SQLDocument list" where
  "apply_stmt (ReplaceRows ps) rows = fold replace_row ps rows"
| "apply_stmt (DeleteIds ids) rows = filter (\<lambda>r. id_col r = JOther \<or> id_col r \<notin> set ids) rows"
| "apply_stmt (InsertRows ps) rows = fold insert_row ps rows"
| "apply_stmt (DeleteUpTo n) rows = filter (\<lambda>r. \<not> rowid r \<le> n) rows"
| "apply_stmt (MatchQuery q n) rows = rows"
| "apply_stmt CountRows rows = rows"
| "apply_stmt (SelectSince n) rows = rows"
| "apply_stmt (SelectOldest n) rows = rows"

text \<open>
  A row id is a signed 64-bit integer.  A statement that binds a number outside
  that range as a row id is refused by the store (\<open>datatype mismatch\<close>) and changes
  nothing.
\<close>

definition rowid_ok :: "int \<Rightarrow> bool" where
  "rowid_ok n = (- (2 ^ 63) \<le> n \<and> n < 2 ^ 63)"

fun stmt_error :: "sql_stmt \<Rightarrow> string option" where
  "stmt_error (ReplaceRows ps) =
     (if list_all (\<lambda>p. rowid_ok (fst p)) ps then None else Some ''datatype mismatch'')"
| "stmt_error stmt = None"

text \<open>\<open>LIMIT n\<close>: a negative limit is no limit.\<close>

definition sql_limit :: "int \<Rightarrow> 'a list \<Rightarrow> 'a list" where
  "sql_limit n xs = (if n < 0 then xs else take (nat n) xs)"

section \<open>The platform and the state of a shard\<close>

text \<open>
  What the runtime supplies and the source does not define: the FTS5 engine
  (\<open>fts_match q rows\<close> is every row matching \<open>q\<close> in rank order, or \<open>None\<close> when the
  engine rejects the query), the size of the database file, which strings
  \<open>idFromString\<close> accepts, and whether the code runs under the test runner.
\<close>

record platform =
  fts_match :: "string \<Rightarrow> SQLDocument list \<Rightarrow> SearchResult list option"
  databaseSize :: "SQLDocument list \<Rightarrow> int"
  idFromString_ok :: "string \<Rightarrow> bool"
  VITEST :: bool

text \<open>
  The durable object: the configuration in memory, the key-value storage
  (\<open>config\<close>, \<open>lastSyncRowId\<close>, \<open>currentColdStorageIndex\<close>, the alarm), the table,
  and the cache binding with the number of invalidations sent to it.
  \<open>sql_fault\<close> says which statements the storage fails on, with the message
  of the exception.
\<close>

record shard =
  config :: DOConfig
  kv_config :: "DOConfig option"
  kv_lastSyncRowId :: "int option"
  kv_currentColdStorageIndex :: "int option"
  alarm_time :: "int option"
  documents :: "SQLDocument list"
  sql_fault :: "sql_stmt \<Rightarrow> string option"
  SEARCH_CACHE :: bool
  cache_invalidations :: nat

text \<open>
  Running a statement: it raises when the storage fails on it or the store refuses
  it; otherwise a writing statement changes the table and a reading one returns its
  rows, in row id order.
\<close>

definition sql_write :: "shard \<Rightarrow> sql_stmt \<Rightarrow> string + shard" where
  "sql_write st stmt =
     (case sql_fault st stmt of
        Some msg \<Rightarrow> Inl msg
      | None \<Rightarrow>
          (case stmt_error stmt of
             Some msg \<Rightarrow> Inl msg
           | None \<Rightarrow> Inr (st\<lparr>documents := apply_stmt stmt (documents st)\<rparr>)))"

definition sql_match :: "platform \<Rightarrow> shard \<Rightarrow> string \<Rightarrow> nat \<Rightarrow> SearchResult list option" where
  "sql_match P st q limit =
     (case sql_fault st (MatchQuery q limit) of
        Some msg \<Rightarrow> None
      | None \<Rightarrow> map_option (take limit) (fts_match P q (documents st)))"

definition sql_count :: "shard \<Rightarrow> string + nat" where
  "sql_count st =
     (case sql_fault st CountRows of
        Some msg \<Rightarrow> Inl msg
      | None \<Rightarrow> Inr (length (documents st)))"

definition sql_select_since :: "shard \<Rightarrow> int \<Rightarrow> string + SQLDocument list" where
  "sql_select_since st n =
     (case sql_fault st (SelectSince n) of
        Some msg \<Rightarrow> Inl msg
      | None \<Rightarrow> Inr (filter (\<lambda>r. rowid r > n) (sort_key rowid (documents st))))"

definition sql_select_oldest :: "shard \<Rightarrow> int \<Rightarrow> string + SQLDocument list" where
  "sql_select_oldest st n =
     (case sql_fault st (SelectOldest n) of
        Some msg \<Rightarrow> Inl msg
      | None \<Rightarrow> Inr (sql_limit n (sort_key rowid (documents st))))"

section \<open>search-do.ts: indexing\<close>

definition content_or_empty :: "document \<Rightarrow> string" where
  "content_or_empty doc =
     (case doc of Doc i (JString s) \<Rightarrow> s | _ \<Rightarrow> [])"

definition id_number :: "document \<Rightarrow> int" where
  "id_number doc = (case doc of Doc (JNumber r) c \<Rightarrow> \<lfloor>r\<rfloor> | _ \<Rightarrow> 0)"

definition id_value :: "document \<Rightarrow> js_value" where
  "id_value doc = (case doc of Doc i c \<Rightarrow> i | NotAnObject \<Rightarrow> JOther)"

definition stored_content :: "document \<Rightarrow> string" where
  "stored_content doc = take 500 (preprocessContent (content_or_empty doc))"

text \<open>
  \<open>indexDocumentChunk\<close>.  A chunk of one document and a larger chunk run the
  same statements with one or several value tuples.  The result is the state
  reached and, when a statement failed, the message of its exception.
\<close>

definition indexDocumentChunk :: "shard \<Rightarrow> document list \<Rightarrow> id_type \<Rightarrow> shard \<times> string option" where
  "indexDocumentChunk st chunk t =
     (case t of
        IntegerId \<Rightarrow>
          (case sql_write st (ReplaceRows (map (\<lambda>doc. (id_number doc, stored_content doc)) chunk)) of
             Inl msg \<Rightarrow> (st, Some msg)
           | Inr st' \<Rightarrow> (st', None))
      | StringId \<Rightarrow>
          (case sql_write st (DeleteIds (map id_value chunk)) of
             Inl msg \<Rightarrow> (st, Some msg)
           | Inr st1 \<Rightarrow>
               (case sql_write st1 (InsertRows (map (\<lambda>doc. (id_value doc, stored_content doc)) chunk)) of
                  Inl msg \<Rightarrow> (st1, Some msg)
                | Inr st2 \<Rightarrow> (st2, None))))"

function chunked :: "nat \<Rightarrow> 'a list \<Rightarrow> 'a list list" where
  "chunked n xs = (if n = 0 \<or> xs = [] then [] else take n xs # chunked n (drop n xs))"
  by pat_completeness auto
termination
  by (relation "measure (\<lambda>(n, xs). length xs)") auto

declare chunked.simps [simp del]

fun index_chunks :: "shard \<Rightarrow> id_type \<Rightarrow> document list list \<Rightarrow> shard \<times> string option" where
  "index_chunks st t [] = (st, None)"
| "index_chunks st t (chunk # rest) =
     (case indexDocumentChunk st chunk t of
        (st', Some msg) \<Rightarrow> (st', Some msg)
      | (st', None) \<Rightarrow> index_chunks st' t rest)"

definition CHUNK_SIZE :: nat where
  "CHUNK_SIZE = 15"

definition indexDocumentsInternal :: "shard \<Rightarrow> document list \<Rightarrow> shard \<times> string option" where
  "indexDocumentsInternal st docs =
     (if length docs = 0 then (st, None)
      else
        (case index_chunks st (idType_or_string (config st)) (chunked CHUNK_SIZE docs) of
           (st', Some msg) \<Rightarrow> (st', Some (''Indexing failed: '' @ msg))
         | (st', None) \<Rightarrow> (st', None)))"

definition invalidateCache :: "shard \<Rightarrow> shard" where
  "invalidateCache st = st\<lparr>cache_invalidations := Suc (cache_invalidations st)\<rparr>"

text \<open>
  \<open>indexDocuments\<close>.  \<open>logStorageMetrics\<close> only reads the row count and catches
  its own failure, and the logger writes to the console: neither changes the
  state, so neither appears here.
\<close>

definition indexDocuments :: "shard \<Rightarrow> document list \<Rightarrow> IndexResult \<times> shard" where
  "indexDocuments st docs =
     (if truthy_bool (isReadOnly (config st)) then
        (\<lparr>success = False, indexed = 0, error = Some ''This is a read-only cold storage DO'',
          details = None, error_list = []\<rparr>, st)
      else
        let t = idType_or_string (config st);
            validation = validateDocuments docs t
        in if \<not> valid validation then
             (\<lparr>success = False, indexed = 0, error = Some ''Invalid documents'',
               details = None, error_list = errors validation\<rparr>, st)
           else
             (case data validation of
                Some d \<Rightarrow>
                  if length d > 0 then
                    (case indexDocumentsInternal st d of
                       (st', Some msg) \<Rightarrow>
                         (\<lparr>success = False, indexed = 0, error = Some ''Failed to process documents'',
                           details = Some msg, error_list = []\<rparr>, st')
                     | (st', None) \<Rightarrow>
                         (\<lparr>success = True, indexed = length d, error = None, details = None,
                           error_list = []\<rparr>,
                          if SEARCH_CACHE st' \<and> length d > 0 then invalidateCache st' else st'))
                  else
                    (\<lparr>success = True, indexed = 0, error = None, details = None, error_list = []\<rparr>, st)
              | None \<Rightarrow>
                  (\<lparr>success = True, indexed = 0, error = None, details = None, error_list = []\<rparr>, st)))"

definition syncDocuments :: "shard \<Rightarrow> document list \<Rightarrow> SyncResult \<times> shard" where
  "syncDocuments st docs =
     (if truthy_bool (isReadOnly (config st)) then
        (\<lparr>sync_success = False, synced = 0, sync_error = Some ''This is a read-only cold storage DO'',
          sync_details = None, sync_error_list = []\<rparr>, st)
      else
        let t = idType_or_string (config st);
            validation = validateDocuments docs t
        in if \<not> valid validation then
             (\<lparr>sync_success = False, synced = 0, sync_error = Some ''Invalid documents'',
               sync_details = None, sync_error_list = errors validation\<rparr>, st)
           else
             (case data validation of
                Some d \<Rightarrow>
                  if length d > 0 then
                    (case indexDocumentsInternal st d of
                       (st', Some msg) \<Rightarrow>
                         (\<lparr>sync_success = False, synced = 0,
                           sync_error = Some ''Failed to sync documents'',
                           sync_details = Some msg, sync_error_list = []\<rparr>, st')
                     | (st', None) \<Rightarrow>
                         (\<lparr>sync_success = True, synced = length d, sync_error = None,
                           sync_details = None, sync_error_list = []\<rparr>,
                          if SEARCH_CACHE st' \<and> length d > 0 then invalidateCache st' else st'))
                  else
                    (\<lparr>sync_success = True, synced = 0, sync_error = None, sync_details = None,
                      sync_error_list = []\<rparr>, st)
              | None \<Rightarrow>
                  (\<lparr>sync_success = True, synced = 0, sync_error = None, sync_details = None,
                    sync_error_list = []\<rparr>, st)))"


section \<open>search-do.ts: searching\<close>

definition effectiveMaxResults :: "cost \<Rightarrow> nat \<Rightarrow> nat" where
  "effectiveMaxResults c maxR =
     (case c of High \<Rightarrow> min maxR 50 | Medium \<Rightarrow> min maxR 200 | Low \<Rightarrow> maxR)"

definition quoted_phrase :: "string \<Rightarrow> string" where
  "quoted_phrase s = CHR 0x22 # double_quotes s @ [CHR 0x22]"

definition ftsQuery :: "string \<Rightarrow> string" where
  "ftsQuery processedQuery =
     (if str_includes processedQuery [CHR 0x22] \<or> str_includes processedQuery [CHR 0x27]
         \<or> str_includes processedQuery '';'' \<or> str_includes processedQuery ''--''
      then quoted_phrase processedQuery
      else if str_includes processedQuery '' ''
      then join_space (nonempty_pieces processedQuery)
      else processedQuery)"

text \<open>
  \<open>search\<close>: the local full-text search.  Beside the hits it returns the
  \<open>MATCH\<close> statements it sent to the store, in order.  A statement that raises
  leads into the \<open>catch\<close> block and its quoted-phrase query with \<open>LIMIT 50\<close>.
\<close>

definition search :: "platform \<Rightarrow> shard \<Rightarrow> string \<Rightarrow> nat \<Rightarrow> SearchResult list \<times> sql_stmt list" where
  "search P st queryText maxR =
     (let processedQuery = preprocessQuery queryText
      in if length processedQuery = 0 then ([], [])
         else
           let queryAnalysis = analyzeQuery processedQuery
           in if isTooCommon queryAnalysis then ([], [])
              else
                let eff = effectiveMaxResults (estimatedCost queryAnalysis) maxR;
                    q = ftsQuery processedQuery
                in (case sql_match P st q eff of
                      Some results \<Rightarrow> (results, [MatchQuery q eff])
                    | None \<Rightarrow>
                        (case sql_match P st (quoted_phrase queryText) 50 of
                           Some fallbackResults \<Rightarrow>
                             (fallbackResults,
                              [MatchQuery q eff, MatchQuery (quoted_phrase queryText) 50])
                         | None \<Rightarrow>
                             ([], [MatchQuery q eff, MatchQuery (quoted_phrase queryText) 50]))))"

text \<open>
  A stub of the cold-storage namespace: the name of the object and the
  parameters give the hits, or \<open>None\<close> when the call rejects.
\<close>

type_synonym search_stub = "string \<Rightarrow> SearchParams \<Rightarrow> SearchResult list option"

text \<open>The template string \<open>`${coldStoragePrefix}-${i}`\<close>.\<close>

definition number_string :: "int \<Rightarrow> string" where
  "number_string i = (if i < 0 then ''-'' @ decimal (nat (- i)) else decimal (nat i))"

definition coldStorageName :: "string \<Rightarrow> int \<Rightarrow> string" where
  "coldStorageName prefix i = prefix @ ''-'' @ number_string i"

text \<open>
  \<open>searchColdStorage\<close>: one call per cold shard below the current index, each for
  \<open>max(1, ceil(maxResults / currentIndex))\<close> hits; a call that rejects counts as no
  hit; the hits are sorted by rank (the sort is stable) and cut at \<open>maxResults\<close>.
\<close>

definition searchColdStorage :: "search_stub \<Rightarrow> shard \<Rightarrow> string \<Rightarrow> nat \<Rightarrow> SearchResult list" where
  "searchColdStorage stub st queryText maxR =
     (let coldStoragePrefix = str_or (coldStoragePrefix (config st)) ''cold-storage'';
          currentIndex = num_or (currentColdStorageIndex (config st)) 0
      in if currentIndex = 0 \<or> maxR \<le> 0 then []
         else
           let resultsPerDO = nat (max 1 \<lceil>real maxR / real_of_int currentIndex\<rceil>);
               allResults =
                 map (\<lambda>i. case stub (coldStorageName coldStoragePrefix (int i))
                                  \<lparr>query = queryText, includeCold = None,
                                   maxResults = Some resultsPerDO\<rparr> of
                             Some results \<Rightarrow> results
                           | None \<Rightarrow> [])
                     [0 ..< nat currentIndex];
               coldResults = sort_key rank (concat allResults)
           in if length coldResults > maxR then take maxR coldResults else coldResults)"

definition searchDocuments :: "platform \<Rightarrow> search_stub \<Rightarrow> shard \<Rightarrow> SearchParams \<Rightarrow> SearchResult list" where
  "searchDocuments P stub st params =
     (let queryText = query params;
          cold = (case includeCold params of None \<Rightarrow> False | Some b \<Rightarrow> b);
          maxR = (case maxResults params of None \<Rightarrow> 100 | Some m \<Rightarrow> m)
      in if queryText = [] then []
         else
           let results = fst (search P st queryText maxR)
           in if cold \<and> \<not> truthy_bool (isReadOnly (config st))
                 \<and> truthy_num (currentColdStorageIndex (config st))
              then
                let coldResults = searchColdStorage stub st queryText (maxR - length results);
                    merged = sort_key rank (results @ coldResults)
                in if length merged > maxR then take maxR merged else merged
              else results)"

text \<open>\<open>getStats\<close>: the row count and the size of the database, or zeros when the count fails.\<close>

definition getStats :: "platform \<Rightarrow> shard \<Rightarrow> DOStats" where
  "getStats P st =
     (case sql_count st of
        Inr n \<Rightarrow>
          \<lparr>count = n, estimatedSize = databaseSize P (documents st),
           stats_isReadOnly = isReadOnly (config st)\<rparr>
      | Inl msg \<Rightarrow>
          \<lparr>count = 0, estimatedSize = 0,
           stats_isReadOnly = Some (truthy_bool (isReadOnly (config st)))\<rparr>)"

text \<open>\<open>configure\<close> (and \<open>configureRPC\<close>, which only calls it) at the time \<open>now\<close>.\<close>

definition configure :: "platform \<Rightarrow> int \<Rightarrow> shard \<Rightarrow> DOConfig \<Rightarrow> shard" where
  "configure P now st newConfig =
     (let cfg = merge_config (config st) newConfig;
          st1 = st\<lparr>config := cfg, kv_config := Some cfg\<rparr>
      in if \<not> VITEST P then
           (if \<not> truthy_num (alarm_time st1) then st1\<lparr>alarm_time := Some (now + 5000)\<rparr> else st1)
         else st1)"

section \<open>The other durable objects\<close>

datatype address = RegionReplica_DO string | LocalReplica_DO string | ColdStorage_DO string

datatype rpc_method = Rpc_indexDocuments | Rpc_syncDocuments | Rpc_searchDocuments
  | Rpc_getStats | Rpc_configureRPC

text \<open>
  The objects a shard can reach, by namespace and name, and the calls that
  fail in transport (the promise rejects and the callee does not run).
\<close>

record world =
  objects :: "address \<Rightarrow> shard"
  rpc_down :: "address \<Rightarrow> rpc_method \<Rightarrow> bool"

definition put_object :: "world \<Rightarrow> address \<Rightarrow> shard \<Rightarrow> world" where
  "put_object w a s = w\<lparr>objects := (objects w)(a := s)\<rparr>"

text \<open>
  The stub a primary uses to search a cold shard.  The callee receives no
  \<open>includeCold\<close>, so it never calls out itself and needs no stub of its own.
\<close>

definition cold_search_stub :: "platform \<Rightarrow> world \<Rightarrow> search_stub" where
  "cold_search_stub P w name params =
     (if rpc_down w (ColdStorage_DO name) Rpc_searchDocuments then None
      else Some (searchDocuments P (\<lambda>n p. None) (objects w (ColdStorage_DO name)) params))"

datatype outcome = Returned | Threw string

section \<open>search-do.ts: replication\<close>

text \<open>
  \<open>getReplicaStub\<close> gives the address of the replica, or \<open>None\<close> (the source's
  \<open>null\<close>) for a descriptor without name or id and for an id that \<open>idFromString\<close>
  rejects.  \<open>syncToReplica\<close> returns at once without a stub, and throws when the call
  throws or the replica answers \<open>success = false\<close>.
\<close>

definition getReplicaStub :: "platform \<Rightarrow> ReplicaInfo \<Rightarrow> address option" where
  "getReplicaStub P replicaInfo =
     (if replica_type replicaInfo = RegionReplica \<and> truthy_str (replica_name replicaInfo)
      then Some (RegionReplica_DO (the (replica_name replicaInfo)))
      else if replica_type replicaInfo = LocalReplica \<and> truthy_str (replica_id replicaInfo)
      then (if idFromString_ok P (the (replica_id replicaInfo))
            then Some (LocalReplica_DO (the (replica_id replicaInfo)))
            else None)
      else None)"

definition syncToReplica :: "platform \<Rightarrow> world \<Rightarrow> ReplicaInfo \<Rightarrow> document list \<Rightarrow> outcome \<times> world" where
  "syncToReplica P w replicaInfo docs =
     (case getReplicaStub P replicaInfo of
        None \<Rightarrow> (Returned, w)
      | Some a \<Rightarrow>
          if rpc_down w a Rpc_syncDocuments then (Threw ''Network connection lost'', w)
          else
            let (result, s') = syncDocuments (objects w a) docs;
                w' = put_object w a s'
            in if \<not> sync_success result
               then (Threw (str_or (sync_error result) ''Sync failed''), w')
               else (Returned, w'))"

text \<open>
  The calls of \<open>Promise.all\<close>, in the order of the list.  Every call is issued;
  the result is the first rejection, if there is one.
\<close>

fun sync_all :: "platform \<Rightarrow> world \<Rightarrow> ReplicaInfo list \<Rightarrow> document list \<Rightarrow> outcome \<times> world" where
  "sync_all P w [] docs = (Returned, w)"
| "sync_all P w (r # rs) docs =
     (let (out1, w1) = syncToReplica P w r docs;
          (out2, w2) = sync_all P w1 rs docs
      in (case out1 of Threw msg \<Rightarrow> (Threw msg, w2) | Returned \<Rightarrow> (out2, w2)))"

text \<open>
  \<open>syncToReplicas\<close>: the rows above the cursor, sent to every replica; the cursor is
  written after \<open>await Promise.all(...)\<close>.
\<close>

definition row_document :: "SQLDocument \<Rightarrow> document" where
  "row_document r = Doc (id_col r) (JString (content r))"

definition syncToReplicas :: "platform \<Rightarrow> shard \<Rightarrow> world \<Rightarrow> outcome \<times> shard \<times> world" where
  "syncToReplicas P st w =
     (let lastSyncRowId = num_or (kv_lastSyncRowId st) 0
      in case sql_select_since st lastSyncRowId of
           Inl msg \<Rightarrow> (Threw msg, st, w)
         | Inr newDocs \<Rightarrow>
             if length newDocs = 0 then (Returned, st, w)
             else
               let docs = map row_document newDocs;
                   (out, w') = sync_all P w (case replicas (config st) of None \<Rightarrow> [] | Some rs \<Rightarrow> rs) docs
               in case out of
                    Threw msg \<Rightarrow> (Threw msg, st, w')
                  | Returned \<Rightarrow>
                      let maxRowId = fold max (map rowid newDocs) (rowid (hd newDocs))
                      in (Returned, st\<lparr>kv_lastSyncRowId := Some maxRowId\<rparr>, w'))"


section \<open>search-do.ts: purging into rolling cold storage\<close>

text \<open>
  \<open>purgeTargetDocs || Math.floor(purgeThresholdDocs || count * 0.8)\<close> and
  \<open>count - targetDocs\<close>.  The product with \<open>0.8\<close> is taken in the reals; for counts
  below \<open>2^50\<close> its floor is the floor of the double.
\<close>

definition targetDocs :: "DOConfig \<Rightarrow> nat \<Rightarrow> int" where
  "targetDocs cfg cnt =
     (if truthy_num (purgeTargetDocs cfg) then the (purgeTargetDocs cfg)
      else \<lfloor>if truthy_num (purgeThresholdDocs cfg)
            then real_of_int (the (purgeThresholdDocs cfg))
            else real cnt * (8 / 10)\<rfloor>)"

definition numToPurge :: "DOConfig \<Rightarrow> nat \<Rightarrow> int" where
  "numToPurge cfg cnt = int cnt - targetDocs cfg cnt"

definition coldStorageThreshold :: "DOConfig \<Rightarrow> int" where
  "coldStorageThreshold cfg =
     (if truthy_num (coldStorageThresholdDocs cfg) then the (coldStorageThresholdDocs cfg)
      else num_or (purgeThresholdDocs cfg) 100000)"

text \<open>
  The calls on the stub of a cold shard: \<open>None\<close> is a call that throws; otherwise the
  callee runs and the world holds its new state.
\<close>

definition rpc_getStats :: "platform \<Rightarrow> world \<Rightarrow> address \<Rightarrow> DOStats option" where
  "rpc_getStats P w a =
     (if rpc_down w a Rpc_getStats then None else Some (getStats P (objects w a)))"

definition rpc_indexDocuments :: "world \<Rightarrow> address \<Rightarrow> document list \<Rightarrow> (IndexResult \<times> world) option" where
  "rpc_indexDocuments w a docs =
     (if rpc_down w a Rpc_indexDocuments then None
      else let (result, s') = indexDocuments (objects w a) docs
           in Some (result, put_object w a s'))"

definition rpc_configureRPC :: "platform \<Rightarrow> int \<Rightarrow> world \<Rightarrow> address \<Rightarrow> DOConfig \<Rightarrow> world option" where
  "rpc_configureRPC P now w a newConfig =
     (if rpc_down w a Rpc_configureRPC then None
      else Some (put_object w a (configure P now (objects w a) newConfig)))"

text \<open>
  One call of \<open>indexDocuments\<close> on a cold shard during a purge: the name of the
  shard, the rows sent, and whether the call returned \<open>success = true\<close>.
\<close>

record move =
  move_name :: string
  move_rows :: "SQLDocument list"
  move_ok :: bool

text \<open>
  The \<open>while (documentsRemaining.length > 0)\<close> loop.  The first argument bounds
  the number of iterations; \<open>None\<close> is a loop that has not finished within the
  bound.  The result is how the loop ended, the other objects, the cold
  storage index and the calls of \<open>indexDocuments\<close> made.
\<close>

fun purge_loop ::
  "nat \<Rightarrow> platform \<Rightarrow> int \<Rightarrow> int \<Rightarrow> string \<Rightarrow> world \<Rightarrow> int \<Rightarrow> SQLDocument list
   \<Rightarrow> (outcome \<times> world \<times> int \<times> move list) option" where
  "purge_loop 0 P now threshold prefix w coldStorageIndex documentsRemaining =
     (if length documentsRemaining > 0 then None else Some (Returned, w, coldStorageIndex, []))"
| "purge_loop (Suc fuel) P now threshold prefix w coldStorageIndex documentsRemaining =
     (if length documentsRemaining > 0 then
        let name = coldStorageName prefix coldStorageIndex;
            a = ColdStorage_DO name;
            stats = (case rpc_getStats P w a of
                       Some s \<Rightarrow> s
                     | None \<Rightarrow> \<lparr>count = 0, estimatedSize = 0, stats_isReadOnly = None\<rparr>);
            availableSpace = threshold - int (count stats)
        in if availableSpace \<le> 0
           then purge_loop fuel P now threshold prefix w (coldStorageIndex + 1) documentsRemaining
           else
             let documentsToMove = take (nat availableSpace) documentsRemaining;
                 rest = drop (nat availableSpace) documentsRemaining
             in (case rpc_indexDocuments w a (map row_document documentsToMove) of
                   None \<Rightarrow>
                     Some (Threw ''Network connection lost'', w, coldStorageIndex,
                           [\<lparr>move_name = name, move_rows = documentsToMove, move_ok = False\<rparr>])
                 | Some (result, w1) \<Rightarrow>
                     if \<not> success result then
                       Some (Threw (''Failed to move documents to cold storage '' @ name @ '': ''
                                    @ (case error result of Some e \<Rightarrow> e | None \<Rightarrow> ''undefined'')),
                             w1, coldStorageIndex,
                             [\<lparr>move_name = name, move_rows = documentsToMove, move_ok = False\<rparr>])
                     else
                       (case (if count stats = 0
                              then rpc_configureRPC P now w1 a (empty_config\<lparr>isReadOnly := Some True\<rparr>)
                              else Some w1) of
                          None \<Rightarrow>
                            Some (Threw ''Network connection lost'', w1, coldStorageIndex,
                                  [\<lparr>move_name = name, move_rows = documentsToMove, move_ok = True\<rparr>])
                        | Some w2 \<Rightarrow>
                            (case purge_loop fuel P now threshold prefix w2
                                    (if int (length documentsToMove) = availableSpace
                                     then coldStorageIndex + 1 else coldStorageIndex)
                                    rest of
                               None \<Rightarrow> None
                             | Some (out, w3, i3, moves) \<Rightarrow>
                                 Some (out, w3, i3,
                                       \<lparr>move_name = name, move_rows = documentsToMove,
                                        move_ok = True\<rparr> # moves))))
      else Some (Returned, w, coldStorageIndex, []))"

text \<open>
  \<open>purgeOldData\<close>: how the step ended, the primary, the other objects, and the calls
  of \<open>indexDocuments\<close> the loop made.  The \<open>DELETE\<close> is the last statement and runs
  only when the loop has ended without a throw.
\<close>

definition purgeOldData ::
  "nat \<Rightarrow> platform \<Rightarrow> int \<Rightarrow> shard \<Rightarrow> world \<Rightarrow> (outcome \<times> shard \<times> world \<times> move list) option" where
  "purgeOldData fuel P now st w =
     (case sql_count st of
        Inl msg \<Rightarrow> Some (Threw msg, st, w, [])
      | Inr cnt \<Rightarrow>
          let actualDatabaseSize = databaseSize P (documents st);
              docCountThresholdReached =
                (truthy_num (purgeThresholdDocs (config st))
                 \<and> int cnt \<ge> the (purgeThresholdDocs (config st)));
              sizeThresholdReached = (actualDatabaseSize > 9000000000)
          in if \<not> docCountThresholdReached \<and> \<not> sizeThresholdReached then Some (Returned, st, w, [])
             else
               (case sql_select_oldest st (numToPurge (config st) cnt) of
                  Inl msg \<Rightarrow> Some (Threw msg, st, w, [])
                | Inr docsToPurge \<Rightarrow>
                    if length docsToPurge = 0 then Some (Returned, st, w, [])
                    else
                      let coldStorageIndex = num_or (currentColdStorageIndex (config st)) 0;
                          prefix = str_or (coldStoragePrefix (config st)) ''cold-storage''
                      in (case purge_loop fuel P now (coldStorageThreshold (config st)) prefix w
                                 coldStorageIndex docsToPurge of
                            None \<Rightarrow> None
                          | Some (Threw msg, w', i', moves) \<Rightarrow> Some (Threw msg, st, w', moves)
                          | Some (Returned, w', i', moves) \<Rightarrow>
                              let st1 = (if i' \<noteq> coldStorageIndex
                                         then st\<lparr>kv_currentColdStorageIndex := Some i',
                                                 config := (config st)\<lparr>currentColdStorageIndex := Some i'\<rparr>\<rparr>
                                         else st)
                              in (case sql_write st1 (DeleteUpTo (rowid (last docsToPurge))) of
                                    Inl msg \<Rightarrow> Some (Threw msg, st1, w', moves)
                                  | Inr st2 \<Rightarrow> Some (Returned, st2, w', moves)))))"

section \<open>search-do.ts: the alarm\<close>

text \<open>
  \<open>alarm\<close> at the time \<open>now\<close>: the replication step, the purge step, and
  \<open>setAlarm(Date.now() + interval)\<close>.  A step that throws ends the alarm.
\<close>

definition alarm ::
  "nat \<Rightarrow> platform \<Rightarrow> int \<Rightarrow> shard \<Rightarrow> world \<Rightarrow> (outcome \<times> shard \<times> world) option" where
  "alarm fuel P now st w =
     (if truthy_bool (isReadOnly (config st)) then Some (Returned, st, w)
      else
        let (out1, st1, w1) =
              (if (case replicas (config st) of None \<Rightarrow> False | Some rs \<Rightarrow> length rs \<noteq> 0)
               then syncToReplicas P st w
               else (Returned, st, w))
        in (case out1 of
              Threw msg \<Rightarrow> Some (Threw msg, st1, w1)
            | Returned \<Rightarrow>
                (case (if truthy_num (purgeThresholdDocs (config st1))
                       then purgeOldData fuel P now st1 w1
                       else Some (Returned, st1, w1, [])) of
                   None \<Rightarrow> None
                 | Some (Threw msg, st2, w2, moves) \<Rightarrow> Some (Threw msg, st2, w2)
                 | Some (Returned, st2, w2, moves) \<Rightarrow>
                     let interval = num_or (alarmIntervalMs (config st2)) 60000
                     in Some (Returned, st2\<lparr>alarm_time := Some (now + interval)\<rparr>, w2))))"

section \<open>Example systems\<close>

text \<open>
  Concrete platforms, shards and documents on which the functions are evaluated
  below.  In the example platform every row matches every query with rank 0; a
  fresh shard is a durable object that has never been configured, and the fresh
  world holds only such objects and loses no call.
\<close>

definition P_ex :: platform where
  "P_ex =
     \<lparr>fts_match =
        (\<lambda>q rows. Some (map (\<lambda>r. \<lparr>result_id = id_col r, result_content = content r,
                                   rank = 0\<rparr>) rows)),
      databaseSize = (\<lambda>rows. 4096), idFromString_ok = (\<lambda>s. True), VITEST = False\<rparr>"

definition fresh_shard :: shard where
  "fresh_shard =
     \<lparr>config = empty_config, kv_config = None, kv_lastSyncRowId = None,
      kv_currentColdStorageIndex = None, alarm_time = None, documents = [],
      sql_fault = (\<lambda>s. None), SEARCH_CACHE = True, cache_invalidations = 0\<rparr>"

definition fresh_world :: world where
  "fresh_world = \<lparr>objects = (\<lambda>a. fresh_shard), rpc_down = (\<lambda>a m. False)\<rparr>"

text \<open>A primary with five rows that purges down to two, into cold shards of capacity two.\<close>

definition purge_config :: DOConfig where
  "purge_config =
     empty_config\<lparr>purgeThresholdDocs := Some 4, purgeTargetDocs := Some 2,
                  coldStorageThresholdDocs := Some 2, coldStoragePrefix := Some ''cold''\<rparr>"

definition purge_rows :: "SQLDocument list" where
  "purge_rows =
     [\<lparr>rowid = 1, id_col = JString ''a'', content = ''alpha''\<rparr>,
      \<lparr>rowid = 2, id_col = JString ''b'', content = ''beta''\<rparr>,
      \<lparr>rowid = 3, id_col = JString ''c'', content = ''gamma''\<rparr>,
      \<lparr>rowid = 4, id_col = JString ''d'', content = ''delta''\<rparr>,
      \<lparr>rowid = 5, id_col = JString ''e'', content = ''epsilon''\<rparr>]"

definition purge_primary :: shard where
  "purge_primary = fresh_shard\<lparr>config := purge_config, documents := purge_rows\<rparr>"





text \<open>
  A shard in integer mode, and a primary in integer mode with the purge settings
  above that has indexed five documents.
\<close>

definition integer_shard :: shard where
  "integer_shard = fresh_shard\<lparr>config := empty_config\<lparr>idType := Some IntegerId\<rparr>\<rparr>"

definition integer_primary :: shard where
  "integer_primary =
     snd (indexDocuments (fresh_shard\<lparr>config := purge_config\<lparr>idType := Some IntegerId\<rparr>\<rparr>)
            [Doc (JNumber 1) (JString ''alpha''), Doc (JNumber 2) (JString ''beta''),
             Doc (JNumber 3) (JString ''gamma''), Doc (JNumber 4) (JString ''delta''),
             Doc (JNumber 5) (JString ''epsilon'')])"

text \<open>A read-only cold shard with one row, and batches to index.\<close>

definition cold_example :: shard where
  "cold_example =
     fresh_shard\<lparr>config := empty_config\<lparr>isReadOnly := Some True\<rparr>,
                 documents := [\<lparr>rowid = 1, id_col = JString ''a'', content = ''alpha''\<rparr>]\<rparr>"

definition new_document :: "document list" where
  "new_document = [Doc (JString ''n'') (JString ''new document'')]"

definition two_documents :: "document list" where
  "two_documents =
     [Doc (JString ''a'') (JString ''JavaScript programming tutorial''),
      Doc (JString ''b'') (JString ''React hooks'')]"

text \<open>A shard with twelve matching rows whose storage fails on the first \<open>MATCH\<close> statement.\<close>

definition flaky_shard :: shard where
  "flaky_shard =
     fresh_shard\<lparr>documents :=
                   map (\<lambda>i. \<lparr>rowid = int i, id_col = JString (''doc'' @ decimal i),
                             content = ''tutorial''\<rparr>) [1 ..< 13],
                 sql_fault := (\<lambda>s. if s = MatchQuery ''tutorial'' 10
                                    then Some ''storage operation failed'' else None)\<rparr>"

text \<open>
  A primary with one regional replica that has indexed one document made of stop
  words and common terms only.
\<close>

definition weur_replica :: ReplicaInfo where
  "weur_replica = \<lparr>replica_type = RegionReplica, replica_name = Some ''weur'', replica_id = None\<rparr>"

definition sync_primary :: shard where
  "sync_primary =
     snd (indexDocuments
            (configure P_ex 0 fresh_shard (empty_config\<lparr>replicas := Some [weur_replica]\<rparr>))
            [Doc (JString ''x'') (JString ''The cat is funny meme'')])"

text \<open>A primary with the same replica that has indexed two documents.\<close>

definition replicated_primary :: shard where
  "replicated_primary =
     snd (indexDocuments
            (configure P_ex 0 fresh_shard (empty_config\<lparr>replicas := Some [weur_replica]\<rparr>))
            two_documents)"

text \<open>
  A primary that purges from four rows down to two into cold shards of capacity ten,
  after indexing five documents, and three documents indexed later.
\<close>

definition stuck_config :: DOConfig where
  "stuck_config =
     empty_config\<lparr>purgeThresholdDocs := Some 4, purgeTargetDocs := Some 2,
                  coldStorageThresholdDocs := Some 10\<rparr>"

definition stuck_primary :: shard where
  "stuck_primary =
     snd (indexDocuments (configure P_ex 0 fresh_shard stuck_config)
            [Doc (JString ''a'') (JString ''alpha''), Doc (JString ''b'') (JString ''beta''),
             Doc (JString ''c'') (JString ''gamma''), Doc (JString ''d'') (JString ''delta''),
             Doc (JString ''e'') (JString ''epsilon'')])"

definition later_documents :: "document list" where
  "later_documents =
     [Doc (JString ''f'') (JString ''zeta''), Doc (JString ''g'') (JString ''eta''),
      Doc (JString ''h'') (JString ''theta'')]"

text \<open>A word of 62 word characters.\<close>

definition long_word :: string where
  "long_word = ''abcdefghijklmnopqrstuvwxyzABCDEFGHIJKLMNOPQRSTUVWXYZ0123456789''"

section \<open>Notions used in the statements and proofs\<close>

text \<open>
  The row that stores a document id: a string id is in the column \<open>id\<close>; a number id
  is the row id of a row written in integer mode, whose column \<open>id\<close> is \<open>NULL\<close>.  A
  shard holds a document id when its table has a row that stores it, and a document
  id is held in cold storage when some cold shard holds it.
\<close>

definition row_holds :: "SQLDocument \<Rightarrow> js_value \<Rightarrow> bool" where
  "row_holds r i =
     (case i of
        JString s \<Rightarrow> id_col r = JString s
      | JNumber x \<Rightarrow> id_col r = JOther \<and> x = of_int (rowid r)
      | JOther \<Rightarrow> False)"

definition shard_holds :: "shard \<Rightarrow> js_value \<Rightarrow> bool" where
  "shard_holds s i = (\<exists>r \<in> set (documents s). row_holds r i)"

definition held_cold :: "world \<Rightarrow> js_value \<Rightarrow> bool" where
  "held_cold w i = (\<exists>name. shard_holds (objects w (ColdStorage_DO name)) i)"

text \<open>
  The free space the purge loop computes for the cold shard with index \<open>i\<close>: the
  capacity minus the row count the shard reports, or minus zero when \<open>getStats\<close> fails.
\<close>

definition available_space :: "platform \<Rightarrow> world \<Rightarrow> int \<Rightarrow> string \<Rightarrow> int \<Rightarrow> int" where
  "available_space P w threshold prefix i =
     threshold - int (count (case rpc_getStats P w (ColdStorage_DO (coldStorageName prefix i)) of
                               Some s \<Rightarrow> s
                             | None \<Rightarrow> \<lparr>count = 0, estimatedSize = 0, stats_isReadOnly = None\<rparr>))"

text \<open>
  A word without white space, a word of word characters only, the ids in the column
  \<open>id\<close> of a shard, and the row ids of its rows written in integer mode.
\<close>

definition clean_word :: "string \<Rightarrow> bool" where
  "clean_word w = (w \<noteq> [] \<and> (\<forall>c \<in> set w. \<not> is_space_char c))"

definition word_token :: "string \<Rightarrow> bool" where
  "word_token w = (w \<noteq> [] \<and> (\<forall>c \<in> set w. is_word_char c))"

definition stored_ids :: "shard \<Rightarrow> js_value set" where
  "stored_ids s = id_col ` set (documents s)"

definition null_rowids :: "SQLDocument list \<Rightarrow> int set" where
  "null_rowids rows = rowid ` set (filter (\<lambda>r. id_col r = JOther) rows)"

section \<open>Properties\<close>

subsection \<open>Strings and the content filters\<close>

lemma lower_char_space [simp]: "lower_char (CHR '' '') = CHR '' ''"
  by (simp add: lower_char_def)

lemma space_is_space [simp]: "is_space_char (CHR '' '')"
  by (simp add: is_space_char_def)

lemma word_not_space: "is_word_char c \<Longrightarrow> \<not> is_space_char c"
  by (auto simp: is_word_char_def is_space_char_def Let_def)

lemma replace_runs_chars:
  "c \<in> set (replace_runs b s) \<Longrightarrow> c = CHR '' '' \<or> (c \<in> set s \<and> (is_word_char c \<or> is_space_char c))"
  by (induction b s rule: replace_runs.induct) (auto split: if_splits)

lemma replace_runs_clean:
  "\<forall>c \<in> set s. is_word_char c \<or> is_space_char c \<Longrightarrow> replace_runs b s = s"
  by (induction b s rule: replace_runs.induct) auto

lemma split_ws_nonempty [simp]: "split_ws s \<noteq> []"
  by (induction s rule: split_ws.induct) (simp_all split: list.splits)

lemma split_ws_Cons_word:
  "\<not> is_space_char c \<Longrightarrow> split_ws (c # cs) = (c # hd (split_ws cs)) # tl (split_ws cs)"
  by (cases cs) (simp_all split: list.splits)

lemma split_ws_Cons_space:
  "is_space_char c \<Longrightarrow>
   split_ws (c # cs) =
     (if cs = [] then ['''', ''''] else if is_space_char (hd cs) then split_ws cs else [] # split_ws cs)"
  by (cases cs) simp_all

lemma split_ws_pieces:
  "w \<in> set (split_ws s) \<Longrightarrow> c \<in> set w \<Longrightarrow> \<not> is_space_char c \<and> c \<in> set s"
proof (induction s arbitrary: w)
  case Nil
  then show ?case by simp
next
  case (Cons a s)
  let ?R = "split_ws s"
  have R: "?R = hd ?R # tl ?R" by simp
  show ?case
  proof (cases "is_space_char a")
    case True
    with Cons.prems have "w = [] \<or> w \<in> set ?R"
      by (auto simp: split_ws_Cons_space split: if_splits)
    with Cons show ?thesis by auto
  next
    case False
    with Cons.prems have "w = a # hd ?R \<or> w \<in> set (tl ?R)"
      by (simp add: split_ws_Cons_word)
    then show ?thesis
    proof
      assume w: "w = a # hd ?R"
      have "hd ?R \<in> set ?R" by simp
      with Cons.IH [of "hd ?R" ] Cons.prems(2) w False show ?thesis by auto
    next
      assume "w \<in> set (tl ?R)"
      then have "w \<in> set ?R" by (metis R list.set_intros(2))
      with Cons.IH [of w] Cons.prems(2) show ?thesis by auto
    qed
  qed
qed

lemma split_ws_append_word:
  "\<forall>c \<in> set w. \<not> is_space_char c \<Longrightarrow>
   split_ws (w @ r) = (w @ hd (split_ws r)) # tl (split_ws r)"
proof (induction w)
  case Nil
  then show ?case by simp
next
  case (Cons a w)
  then show ?case by (simp add: split_ws_Cons_word)
qed

lemma split_ws_word: "\<forall>c \<in> set w. \<not> is_space_char c \<Longrightarrow> split_ws w = [w]"
  using split_ws_append_word [of w "[]"] by simp

lemma lower_char_fixed:
  "\<not> ((65 \<le> (of_char c :: nat) \<and> (of_char c :: nat) \<le> 90)
      \<or> (192 \<le> (of_char c :: nat) \<and> (of_char c :: nat) \<le> 222 \<and> (of_char c :: nat) \<noteq> 215))
   \<Longrightarrow> lower_char c = c"
  unfolding lower_char_def Let_def by (simp only: if_False)

lemma lower_char_idem: "lower_char (lower_char c) = lower_char c"
proof -
  let ?n = "of_char c :: nat"
  show ?thesis
  proof (cases "(65 \<le> ?n \<and> ?n \<le> 90) \<or> (192 \<le> ?n \<and> ?n \<le> 222 \<and> ?n \<noteq> 215)")
    case True
    then have 1: "lower_char c = char_of (?n + 32)"
      unfolding lower_char_def Let_def by (simp only: if_True)
    have "(?n + 32) mod 256 = ?n + 32" using True by auto
    then have 2: "(of_char (char_of (?n + 32)) :: nat) = ?n + 32"
      by (simp only: of_char_of)
    have "\<not> ((65 \<le> ?n + 32 \<and> ?n + 32 \<le> 90) \<or> (192 \<le> ?n + 32 \<and> ?n + 32 \<le> 222 \<and> ?n + 32 \<noteq> 215))"
      using True by arith
    then have "lower_char (char_of (?n + 32)) = char_of (?n + 32)"
      by (intro lower_char_fixed) (simp only: 2 not_False_eq_True)
    then show ?thesis by (simp only: 1)
  next
    case False
    then have "lower_char c = c" by (rule lower_char_fixed)
    then show ?thesis by simp
  qed
qed

lemma nonempty_pieces_clean: "w \<in> set (nonempty_pieces s) \<Longrightarrow> clean_word w"
  by (auto simp: nonempty_pieces_def clean_word_def dest: split_ws_pieces)

lemma nonempty_pieces_chars: "w \<in> set (nonempty_pieces s) \<Longrightarrow> c \<in> set w \<Longrightarrow> c \<in> set s"
  by (auto simp: nonempty_pieces_def dest: split_ws_pieces)

lemma join_space_hd:
  "\<forall>w \<in> set ws. clean_word w \<Longrightarrow> ws \<noteq> [] \<Longrightarrow>
   join_space ws \<noteq> [] \<and> \<not> is_space_char (hd (join_space ws)) \<and> \<not> is_space_char (last (join_space ws))"
  by (induction ws rule: join_space.induct) (auto simp: clean_word_def)

lemma nonempty_pieces_join:
  "\<forall>w \<in> set ws. clean_word w \<Longrightarrow> nonempty_pieces (join_space ws) = ws"
proof (induction ws rule: join_space.induct)
  case 1
  show ?case by (simp add: nonempty_pieces_def)
next
  case (2 w)
  then show ?case by (simp add: nonempty_pieces_def clean_word_def split_ws_word)
next
  case (3 w v ws)
  let ?r = "join_space (v # ws)"
  from 3 have r: "?r \<noteq> []" "\<not> is_space_char (hd ?r)"
    using join_space_hd [of "v # ws"] by auto
  then obtain d ds where d: "?r = d # ds" "\<not> is_space_char d"
    by (cases ?r) auto
  have w: "\<forall>c \<in> set w. \<not> is_space_char c" "w \<noteq> []"
    using 3 by (auto simp: clean_word_def)
  have "split_ws (CHR '' '' # ?r) = [] # split_ws ?r"
    using d by simp
  then have "split_ws (w @ CHR '' '' # ?r) = w # split_ws ?r"
    using split_ws_append_word [OF w(1), of "CHR '' '' # ?r"] by simp
  then have "nonempty_pieces (w @ CHR '' '' # ?r) = w # nonempty_pieces ?r"
    using w by (simp add: nonempty_pieces_def)
  with 3 show ?case by simp
qed

lemma dropWhile_hd_keep: "xs \<noteq> [] \<Longrightarrow> \<not> P (hd xs) \<Longrightarrow> dropWhile P xs = xs"
  by (cases xs) auto

lemma trim_clean:
  assumes "s = [] \<or> (\<not> is_space_char (hd s) \<and> \<not> is_space_char (last s))"
  shows "trim s = s"
proof (cases "s = []")
  case True
  then show ?thesis by (simp add: trim_def)
next
  case False
  with assms have h: "\<not> is_space_char (hd s)" "\<not> is_space_char (last s)" by auto
  have 1: "dropWhile is_space_char s = s"
    using False h(1) by (rule dropWhile_hd_keep)
  have "rev s \<noteq> []" "\<not> is_space_char (hd (rev s))"
    using False h(2) by (simp_all add: hd_rev)
  then have 2: "dropWhile is_space_char (rev s) = rev s"
    by (rule dropWhile_hd_keep)
  show ?thesis by (simp add: trim_def 1 2)
qed

lemma trim_join: "\<forall>w \<in> set ws. clean_word w \<Longrightarrow> trim (join_space ws) = join_space ws"
proof (cases "ws = []")
  case True
  then show ?thesis by (simp add: trim_def)
next
  case False
  assume "\<forall>w \<in> set ws. clean_word w"
  from join_space_hd [OF this False] show ?thesis
    by (intro trim_clean) simp
qed

lemma join_space_chars: "c \<in> set (join_space ws) \<Longrightarrow> c = CHR '' '' \<or> (\<exists>w \<in> set ws. c \<in> set w)"
  by (induction ws rule: join_space.induct) auto

lemma toLowerCase_fixed: "\<forall>c \<in> set s. lower_char c = c \<Longrightarrow> toLowerCase s = s"
  by (simp add: toLowerCase_def map_idI)

lemma toLowerCase_chars: "c \<in> set (toLowerCase s) \<Longrightarrow> lower_char c = c"
  by (auto simp: toLowerCase_def lower_char_idem)

lemma word_token_clean: "word_token w \<Longrightarrow> clean_word w"
  by (auto simp: word_token_def clean_word_def dest: word_not_space)

lemma pieces_replace_word_token:
  "w \<in> set (nonempty_pieces (replace_nonword s)) \<Longrightarrow> word_token w"
  unfolding word_token_def
proof (intro conjI ballI)
  assume w: "w \<in> set (nonempty_pieces (replace_nonword s))"
  then show "w \<noteq> []" by (simp add: nonempty_pieces_def)
  fix c assume c: "c \<in> set w"
  from w c have 1: "\<not> is_space_char c" "c \<in> set (replace_nonword s)"
    by (auto simp: nonempty_pieces_def dest: split_ws_pieces)
  then show "is_word_char c"
    using replace_runs_chars [of c False s] by (auto simp: replace_nonword_def)
qed

lemma pieces_replace_chars:
  "w \<in> set (nonempty_pieces (replace_nonword s)) \<Longrightarrow> c \<in> set w \<Longrightarrow> c \<in> set s"
proof -
  assume w: "w \<in> set (nonempty_pieces (replace_nonword s))" and c: "c \<in> set w"
  then have 1: "\<not> is_space_char c" "c \<in> set (replace_nonword s)"
    by (auto simp: nonempty_pieces_def dest: split_ws_pieces)
  then show "c \<in> set s"
    using replace_runs_chars [of c False s] by (auto simp: replace_nonword_def)
qed

lemma replace_nonword_join:
  "\<forall>w \<in> set ws. word_token w \<Longrightarrow> replace_nonword (join_space ws) = join_space ws"
  unfolding replace_nonword_def
  by (rule replace_runs_clean) (auto simp: word_token_def dest!: join_space_chars)

lemma nonempty_pieces_join_tokens:
  "\<forall>w \<in> set ws. word_token w \<Longrightarrow> nonempty_pieces (join_space ws) = ws"
  by (rule nonempty_pieces_join) (simp add: word_token_clean)

lemma trim_join_tokens:
  "\<forall>w \<in> set ws. word_token w \<Longrightarrow> trim (join_space ws) = join_space ws"
  by (rule trim_join) (simp add: word_token_clean)

lemma preprocessQuery_eq:
  "preprocessQuery q = join_space (filter keep_query_word (nonempty_pieces (replace_nonword q)))"
proof (cases "q = []")
  case True
  then show ?thesis
    by (simp add: preprocessQuery_def nonempty_pieces_def replace_nonword_def)
next
  case False
  have "\<forall>w \<in> set (filter keep_query_word (nonempty_pieces (replace_nonword q))). word_token w"
    by (auto intro: pieces_replace_word_token)
  then show ?thesis
    using False by (simp add: preprocessQuery_def Let_def trim_join_tokens)
qed

lemma preprocessQuery_pieces:
  "nonempty_pieces (replace_nonword (preprocessQuery q)) =
     filter keep_query_word (nonempty_pieces (replace_nonword q))"
proof -
  let ?fw = "filter keep_query_word (nonempty_pieces (replace_nonword q))"
  have tok: "\<forall>w \<in> set ?fw. word_token w"
    by (auto intro: pieces_replace_word_token)
  show ?thesis
    by (simp only: preprocessQuery_eq replace_nonword_join [OF tok] nonempty_pieces_join_tokens [OF tok])
qed

lemma preprocessContent_eq:
  "preprocessContent x =
     join_space (filter keep_content_word (nonempty_pieces (replace_nonword (toLowerCase x))))"
proof (cases "x = []")
  case True
  then show ?thesis
    by (simp add: preprocessContent_def nonempty_pieces_def replace_nonword_def toLowerCase_def)
next
  case False
  have "\<forall>w \<in> set (filter keep_content_word (nonempty_pieces (replace_nonword (toLowerCase x)))). word_token w"
    by (auto intro: pieces_replace_word_token)
  then show ?thesis
    using False by (simp add: preprocessContent_def Let_def trim_join_tokens)
qed

lemma preprocessContent_pieces:
  "nonempty_pieces (replace_nonword (toLowerCase (preprocessContent x))) =
     filter keep_content_word (nonempty_pieces (replace_nonword (toLowerCase x)))"
proof -
  let ?fw = "filter keep_content_word (nonempty_pieces (replace_nonword (toLowerCase x)))"
  have tok: "\<forall>w \<in> set ?fw. word_token w"
    by (auto intro: pieces_replace_word_token)
  have "\<forall>c \<in> set (join_space ?fw). lower_char c = c"
  proof
    fix c assume "c \<in> set (join_space ?fw)"
    then consider "c = CHR '' ''" | w where "w \<in> set ?fw" "c \<in> set w"
      using join_space_chars by blast
    then show "lower_char c = c"
    proof cases
      case 1
      then show ?thesis by simp
    next
      case 2
      then have "c \<in> set (toLowerCase x)"
        using pieces_replace_chars [of w "toLowerCase x" c] by simp
      then show ?thesis by (rule toLowerCase_chars)
    qed
  qed
  then have low: "toLowerCase (join_space ?fw) = join_space ?fw"
    by (rule toLowerCase_fixed)
  show ?thesis
    by (simp only: preprocessContent_eq low replace_nonword_join [OF tok]
          nonempty_pieces_join_tokens [OF tok])
qed

lemma filters_idempotent_pieces:
  "nonempty_pieces (preprocessQuery x)
       = filter keep_query_word (nonempty_pieces (replace_nonword x))"
proof -
  have "\<forall>w \<in> set (filter keep_query_word (nonempty_pieces (replace_nonword x))). word_token w"
    by (auto intro: pieces_replace_word_token)
  then show ?thesis
    by (simp only: preprocessQuery_eq nonempty_pieces_join_tokens)
qed

text \<open>
  Claim C9.  Both content filters are idempotent: filtering a filtered string
  again changes nothing, for \<open>preprocessContent\<close> and for \<open>preprocessQuery\<close>.
  \<open>preprocessQuery\<close> keeps every retained word in its original case: the words
  of its result are exactly the words of the input that pass the filter, unchanged.
\<close>

theorem C9_filters_idempotent:
  "preprocessContent (preprocessContent x) = preprocessContent x
   \<and> preprocessQuery (preprocessQuery x) = preprocessQuery x
   \<and> nonempty_pieces (preprocessQuery x)
       = filter keep_query_word (nonempty_pieces (replace_nonword x))"
proof (intro conjI)
  show "preprocessContent (preprocessContent x) = preprocessContent x"
    by (simp add: preprocessContent_eq [of "preprocessContent x"] preprocessContent_pieces)
       (simp add: preprocessContent_eq)
  show "preprocessQuery (preprocessQuery x) = preprocessQuery x"
    by (simp add: preprocessQuery_eq [of "preprocessQuery x"] preprocessQuery_pieces)
       (simp add: preprocessQuery_eq)
  have "\<forall>w \<in> set (filter keep_query_word (nonempty_pieces (replace_nonword x))). word_token w"
    by (auto intro: pieces_replace_word_token)
  then show "nonempty_pieces (preprocessQuery x)
       = filter keep_query_word (nonempty_pieces (replace_nonword x))"
    by (simp only: preprocessQuery_eq nonempty_pieces_join_tokens)
qed

subsection \<open>Rejected queries\<close>

lemma analyzeQuery_ratio_tooCommon:
  "commonTermsRatio (analyzeQuery s) > 8 / 10 \<Longrightarrow> isTooCommon (analyzeQuery s)"
  by (simp add: analyzeQuery_def Let_def split: if_splits)

lemma ratio_positive_nonempty:
  "commonTermsRatio (analyzeQuery s) > 8 / 10 \<Longrightarrow> s \<noteq> []"
  by (auto simp: analyzeQuery_def)

lemma search_rejected:
  "preprocessQuery q = [] \<or> isTooCommon (analyzeQuery (preprocessQuery q)) \<Longrightarrow>
   search P st q m = ([], [])"
  by (auto simp: search_def Let_def)

lemma concat_all_empty: "concat (map (\<lambda>i. []) xs) = []"
  by (induction xs) simp_all

lemma searchColdStorage_all_empty:
  assumes "\<And>name k. stub name \<lparr>query = q, includeCold = None, maxResults = Some k\<rparr> = None
                     \<or> stub name \<lparr>query = q, includeCold = None, maxResults = Some k\<rparr> = Some []"
  shows "searchColdStorage stub st q m = []"
proof -
  have "(case stub name \<lparr>query = q, includeCold = None, maxResults = Some k\<rparr> of
           Some results \<Rightarrow> results | None \<Rightarrow> []) = []" for name k
    using assms [of name k] by (auto split: option.splits)
  then show ?thesis
    by (simp add: searchColdStorage_def Let_def concat_all_empty)
qed

lemma searchDocuments_rejected:
  assumes "\<And>P' st' m'. search P' st' q m' = ([], [])"
  shows "searchDocuments P (cold_search_stub P w) st \<lparr>query = q, includeCold = ic, maxResults = mr\<rparr> = []"
proof -
  have cold: "cold_search_stub P w name \<lparr>query = q, includeCold = None, maxResults = Some k\<rparr> = None
            \<or> cold_search_stub P w name \<lparr>query = q, includeCold = None, maxResults = Some k\<rparr> = Some []"
    for name k
    using assms by (simp add: cold_search_stub_def searchDocuments_def Let_def)
  have "searchColdStorage (cold_search_stub P w) st q k = []" for k
    by (rule searchColdStorage_all_empty) (rule cold)
  then show ?thesis
    using assms by (simp add: searchDocuments_def Let_def)
qed

text \<open>
  Claim C7.  When the common-term ratio of the processed query exceeds 0.8, the
  analysis marks the query as too common, the local search returns no hit and
  sends no statement to the store, and \<open>searchDocuments\<close> returns the empty list,
  with or without cold storage.
\<close>

theorem C7_too_common_rejected:
  assumes "commonTermsRatio (analyzeQuery (preprocessQuery q)) > 8 / 10"
  shows "isTooCommon (analyzeQuery (preprocessQuery q))
         \<and> search P st q m = ([], [])
         \<and> searchDocuments P (cold_search_stub P w) st
              \<lparr>query = q, includeCold = ic, maxResults = mr\<rparr> = []"
proof -
  have tc: "isTooCommon (analyzeQuery (preprocessQuery q))"
    using assms by (rule analyzeQuery_ratio_tooCommon)
  then have "search P' st' q m' = ([], [])" for P' st' m'
    by (simp add: search_rejected)
  then show ?thesis
    using tc searchDocuments_rejected [of q P w st ic mr] by simp
qed

lemma preprocessQuery_the_and_or_cat_meme:
  "preprocessQuery ''the and or cat meme'' = ''cat meme''"
  by (simp add: preprocessQuery_def nonempty_pieces_def replace_nonword_def is_word_char_def
        is_space_char_def keep_query_word_def toLowerCase_def lower_char_def STOP_WORDS_def trim_def)

lemma ratio_cat_meme: "commonTermsRatio (analyzeQuery ''cat meme'') = 1"
  by (simp add: analyzeQuery_def nonempty_pieces_def replace_nonword_def is_word_char_def
        is_space_char_def toLowerCase_def lower_char_def STOP_WORDS_def COMMON_TERMS_def)

text \<open>The query \<open>the and or cat meme\<close> with \<open>maxResults = 100\<close> is such a query.\<close>

theorem C7_witness:
  "commonTermsRatio (analyzeQuery (preprocessQuery ''the and or cat meme'')) > 8 / 10
   \<and> searchDocuments P_ex (cold_search_stub P_ex fresh_world) fresh_shard
        \<lparr>query = ''the and or cat meme'', includeCold = Some True, maxResults = Some 100\<rparr> = []"
  using C7_too_common_rejected
          [of "''the and or cat meme''" P_ex fresh_shard 100 fresh_world "Some True" "Some 100"]
  by (simp add: preprocessQuery_the_and_or_cat_meme ratio_cat_meme)

lemma keep_query_word_length: "keep_query_word w \<Longrightarrow> length w \<ge> 2"
  by (simp add: keep_query_word_def toLowerCase_def Let_def)

lemma preprocessQuery_x7q:
  "nonempty_pieces (replace_nonword ''x 7 q'') = [''x'', ''7'', ''q'']"
  by (simp add: nonempty_pieces_def replace_nonword_def is_word_char_def is_space_char_def)

text \<open>
  Claim C10.  Every word that \<open>preprocessQuery\<close> retains has at least two
  characters, and no upper bound applies: every word of the input with at least two
  characters that is not a stop word is retained.  A query whose words all have a
  single character (the words are the pieces \<open>preprocessQuery\<close> splits the query
  into) is processed to the empty string; the local search then returns no hit and
  sends no statement to the store, and \<open>searchDocuments\<close> returns the empty list,
  with or without cold storage.
\<close>

theorem C10_query_tokens_at_least_two:
  "(\<forall>w \<in> set (nonempty_pieces (preprocessQuery q)). length w \<ge> 2)
   \<and> (\<forall>w \<in> set (nonempty_pieces (replace_nonword q)).
         length w \<ge> 2 \<and> toLowerCase w \<notin> set STOP_WORDS
         \<longrightarrow> w \<in> set (nonempty_pieces (preprocessQuery q)))
   \<and> ((\<forall>w \<in> set (nonempty_pieces (replace_nonword q)). length w = 1) \<longrightarrow>
         preprocessQuery q = []
         \<and> search P st q m = ([], [])
         \<and> searchDocuments P (cold_search_stub P w) st
              \<lparr>query = q, includeCold = ic, maxResults = mr\<rparr> = [])"
proof -
  have pieces: "nonempty_pieces (preprocessQuery q)
       = filter keep_query_word (nonempty_pieces (replace_nonword q))"
    using filters_idempotent_pieces by simp
  have 1: "\<forall>w \<in> set (nonempty_pieces (preprocessQuery q)). length w \<ge> 2"
    by (simp add: pieces keep_query_word_length)
  have 2: "\<forall>w \<in> set (nonempty_pieces (replace_nonword q)).
         length w \<ge> 2 \<and> toLowerCase w \<notin> set STOP_WORDS
         \<longrightarrow> w \<in> set (nonempty_pieces (preprocessQuery q))"
    by (simp add: pieces keep_query_word_def toLowerCase_def Let_def)
  have 3: "preprocessQuery q = []
         \<and> search P st q m = ([], [])
         \<and> searchDocuments P (cold_search_stub P w) st
              \<lparr>query = q, includeCold = ic, maxResults = mr\<rparr> = []"
    if single: "\<forall>w \<in> set (nonempty_pieces (replace_nonword q)). length w = 1"
  proof -
    have "\<not> keep_query_word w" if "w \<in> set (nonempty_pieces (replace_nonword q))" for w
      using that single keep_query_word_length [of w] by fastforce
    then have "filter keep_query_word (nonempty_pieces (replace_nonword q)) = []"
      by (simp add: filter_empty_conv)
    then have e: "preprocessQuery q = []"
      by (simp add: preprocessQuery_eq)
    then have "search P' st' q m' = ([], [])" for P' st' m'
      by (simp add: search_rejected)
    with e show ?thesis
      using searchDocuments_rejected [of q P w st ic mr] by simp
  qed
  from 1 2 3 show ?thesis by blast
qed

subsection \<open>Indexing: what a successful call stores\<close>

lemma validate_each_all_valid:
  "snd (validate_each i docs t) = [] \<Longrightarrow>
   fst (validate_each i docs t) = docs \<and> (\<forall>doc \<in> set docs. validateDocument doc t = [])"
proof (induction docs arbitrary: i)
  case Nil
  then show ?case by simp
next
  case (Cons doc docs)
  obtain v e where ve: "validate_each (Suc i) docs t = (v, e)" by force
  show ?case
  proof (cases "validateDocument doc t = []")
    case True
    with Cons.prems ve have "e = []" by simp
    with Cons.IH [of "Suc i"] ve True show ?thesis by simp
  next
    case False
    with Cons.prems ve show ?thesis by simp
  qed
qed

lemma validateDocuments_valid:
  "valid (validateDocuments docs t) \<Longrightarrow>
   data (validateDocuments docs t) = (if docs = [] then Some [] else Some docs)
   \<and> (\<forall>doc \<in> set docs. validateDocument doc t = [])"
proof (cases "docs = []")
  case True
  then show ?thesis by (simp add: validateDocuments_def)
next
  case False
  assume v: "valid (validateDocuments docs t)"
  obtain vd e where ve: "validate_each 0 docs t = (vd, e)" by force
  with v False have "e = []" by (simp add: validateDocuments_def)
  with validate_each_all_valid [of 0 docs t] ve
  have "vd = docs" "\<forall>doc \<in> set docs. validateDocument doc t = []" by simp_all
  with False ve show ?thesis by (simp add: validateDocuments_def)
qed

text \<open>Every statement leaves the row ids of a table distinct.\<close>

lemma fold_max_ge: "(a::int) \<le> fold max xs a \<and> (\<forall>x \<in> set xs. x \<le> fold max xs a)"
proof (induction xs arbitrary: a)
  case Nil
  then show ?case by simp
next
  case (Cons y ys)
  from Cons.IH [of "max y a"] show ?case by auto
qed

lemma next_rowid_fresh: "r \<in> set rows \<Longrightarrow> rowid r < next_rowid rows"
  using fold_max_ge [of 0 "map rowid rows"] by (auto simp: next_rowid_def)

lemma insert_row_distinct:
  assumes "distinct (map rowid rows)"
  shows "distinct (map rowid (insert_row p rows))"
proof -
  have "next_rowid rows \<notin> rowid ` set rows"
  proof
    assume "next_rowid rows \<in> rowid ` set rows"
    then obtain r where "r \<in> set rows" "next_rowid rows = rowid r" by auto
    with next_rowid_fresh [of r rows] show False by simp
  qed
  with assms show ?thesis by (simp add: insert_row_def)
qed

lemma replace_row_distinct:
  "distinct (map rowid rows) \<Longrightarrow> distinct (map rowid (replace_row p rows))"
  by (auto simp: replace_row_def distinct_map_filter)

lemma apply_stmt_distinct:
  "distinct (map rowid rows) \<Longrightarrow> distinct (map rowid (apply_stmt stmt rows))"
proof (cases stmt)
  case (ReplaceRows ps)
  assume "distinct (map rowid rows)"
  then have "distinct (map rowid (fold replace_row ps rows))"
    by (induction ps arbitrary: rows) (simp_all add: replace_row_distinct)
  with ReplaceRows show ?thesis by simp
next
  case (InsertRows ps)
  assume "distinct (map rowid rows)"
  then have "distinct (map rowid (fold insert_row ps rows))"
    by (induction ps arbitrary: rows) (simp_all add: insert_row_distinct)
  with InsertRows show ?thesis by simp
qed (simp_all add: distinct_map_filter)

lemma set_fold_insert_row:
  "id_col ` set (fold insert_row ps rows) = id_col ` set rows \<union> fst ` set ps"
  by (induction ps arbitrary: rows) (auto simp: insert_row_def)

lemma null_rowids_replace_row:
  "null_rowids (replace_row p rows) = null_rowids rows \<union> {fst p}"
proof
  show "null_rowids (replace_row p rows) \<subseteq> null_rowids rows \<union> {fst p}"
    by (auto simp: null_rowids_def replace_row_def)
  show "null_rowids rows \<union> {fst p} \<subseteq> null_rowids (replace_row p rows)"
  proof
    fix n assume "n \<in> null_rowids rows \<union> {fst p}"
    then consider "n = fst p" | r where "r \<in> set rows" "id_col r = JOther" "n = rowid r" "n \<noteq> fst p"
      by (auto simp: null_rowids_def)
    then show "n \<in> null_rowids (replace_row p rows)"
    proof cases
      case 1
      then show ?thesis by (force simp: null_rowids_def replace_row_def)
    next
      case 2
      then show ?thesis by (force simp: null_rowids_def replace_row_def)
    qed
  qed
qed

lemma null_rowids_fold_replace_row:
  "null_rowids (fold replace_row ps rows) = null_rowids rows \<union> fst ` set ps"
proof (induction ps arbitrary: rows)
  case Nil
  then show ?case by simp
next
  case (Cons p ps)
  have "fold replace_row (p # ps) rows = fold replace_row ps (replace_row p rows)" by simp
  with Cons.IH [of "replace_row p rows"] null_rowids_replace_row [of p rows]
  show ?case by auto
qed

lemma valid_integer_id:
  "validateDocument doc IntegerId = [] \<Longrightarrow> id_value doc = JNumber (of_int (id_number doc))"
proof (cases doc)
  case NotAnObject
  assume "validateDocument doc IntegerId = []"
  with NotAnObject show ?thesis by simp
next
  case (Doc i c)
  assume "validateDocument doc IntegerId = []"
  with Doc have e: "id_errors i IntegerId = []" by simp
  then obtain r where i: "i = JNumber r" 
    by (cases i) (simp_all add: id_errors_def)
  with e have "isInteger r" by (simp add: id_errors_def split: if_splits)
  then have fl: "r = of_int \<lfloor>r\<rfloor>" unfolding isInteger_def by (rule sym)
  have "id_value doc = JNumber r" "id_number doc = \<lfloor>r\<rfloor>"
    unfolding Doc i by (simp_all add: id_value_def id_number_def)
  with fl show ?thesis by (simp only:)
qed

lemma valid_string_id:
  "validateDocument doc StringId = [] \<Longrightarrow> \<exists>s. id_value doc = JString s"
proof (cases doc)
  case NotAnObject
  assume "validateDocument doc StringId = []"
  with NotAnObject show ?thesis by simp
next
  case (Doc i c)
  assume "validateDocument doc StringId = []"
  with Doc have "id_errors i StringId = []" by simp
  then obtain s where "i = JString s"
    by (cases i) (simp_all add: id_errors_def)
  with Doc show ?thesis by (simp add: id_value_def)
qed

lemma sql_write_config:
  "sql_write st stmt = Inr st' \<Longrightarrow>
   config st' = config st \<and> documents st' = apply_stmt stmt (documents st)"
  by (auto simp: sql_write_def split: option.splits)

lemma indexDocumentChunk_StringId:
  assumes "indexDocumentChunk st chunk StringId = (st', None)"
  shows "\<exists>st1. sql_write st (DeleteIds (map id_value chunk)) = Inr st1
           \<and> sql_write st1 (InsertRows (map (\<lambda>doc. (id_value doc, stored_content doc)) chunk)) = Inr st'"
proof (cases "sql_write st (DeleteIds (map id_value chunk))")
  case (Inl msg)
  with assms show ?thesis by (simp add: indexDocumentChunk_def)
next
  case (Inr st1)
  show ?thesis
  proof (cases "sql_write st1 (InsertRows (map (\<lambda>doc. (id_value doc, stored_content doc)) chunk))")
    case (Inl msg)
    with Inr assms show ?thesis by (simp add: indexDocumentChunk_def)
  next
    case (Inr st2)
    with \<open>sql_write st (DeleteIds (map id_value chunk)) = Inr st1\<close> assms
    show ?thesis by (simp add: indexDocumentChunk_def)
  qed
qed

lemma indexDocumentChunk_IntegerId:
  assumes "indexDocumentChunk st chunk IntegerId = (st', None)"
  shows "sql_write st (ReplaceRows (map (\<lambda>doc. (id_number doc, stored_content doc)) chunk)) = Inr st'"
proof (cases "sql_write st (ReplaceRows (map (\<lambda>doc. (id_number doc, stored_content doc)) chunk))")
  case (Inl msg)
  with assms show ?thesis by (simp add: indexDocumentChunk_def)
next
  case (Inr st1)
  with assms show ?thesis by (simp add: indexDocumentChunk_def)
qed

lemma indexDocumentChunk_ok:
  assumes "indexDocumentChunk st chunk t = (st', None)"
  shows "config st' = config st
         \<and> (t = StringId \<longrightarrow> stored_ids st \<union> id_value ` set chunk \<subseteq> stored_ids st')
         \<and> (t = IntegerId \<longrightarrow>
               null_rowids (documents st) \<union> id_number ` set chunk \<subseteq> null_rowids (documents st'))"
proof (cases t)
  case StringId
  with assms indexDocumentChunk_StringId [of st chunk st'] obtain st1 where
    1: "sql_write st (DeleteIds (map id_value chunk)) = Inr st1" and
    2: "sql_write st1 (InsertRows (map (\<lambda>doc. (id_value doc, stored_content doc)) chunk)) = Inr st'"
    by blast
  from sql_write_config [OF 1] sql_write_config [OF 2]
  have cfg: "config st' = config st"
    and docs: "documents st' =
      fold insert_row (map (\<lambda>doc. (id_value doc, stored_content doc)) chunk)
        (filter (\<lambda>r. id_col r = JOther \<or> id_col r \<notin> set (map id_value chunk)) (documents st))"
    by simp_all
  have ids: "id_col ` set (documents st') =
      id_col ` set (filter (\<lambda>r. id_col r = JOther \<or> id_col r \<notin> set (map id_value chunk))
                     (documents st))
        \<union> id_value ` set chunk"
    unfolding docs set_fold_insert_row by (simp add: image_image)
  have "stored_ids st \<union> id_value ` set chunk \<subseteq> stored_ids st'"
    unfolding stored_ids_def ids by auto
  with cfg StringId show ?thesis by simp
next
  case IntegerId
  let ?ps = "map (\<lambda>doc. (id_number doc, stored_content doc)) chunk"
  from IntegerId assms have 1: "sql_write st (ReplaceRows ?ps) = Inr st'"
    by (simp add: indexDocumentChunk_IntegerId)
  from sql_write_config [OF 1]
  have cfg: "config st' = config st" and docs: "documents st' = fold replace_row ?ps (documents st)"
    by simp_all
  have "null_rowids (documents st') = null_rowids (documents st) \<union> id_number ` set chunk"
    unfolding docs null_rowids_fold_replace_row by (simp add: image_image)
  with cfg IntegerId show ?thesis by simp
qed

lemma index_chunks_ok:
  assumes "index_chunks st t chunks = (st', None)"
  shows "config st' = config st
         \<and> (t = StringId \<longrightarrow>
               stored_ids st \<union> id_value ` (\<Union> (set ` set chunks)) \<subseteq> stored_ids st')
         \<and> (t = IntegerId \<longrightarrow>
               null_rowids (documents st) \<union> id_number ` (\<Union> (set ` set chunks))
                 \<subseteq> null_rowids (documents st'))"
  using assms
proof (induction chunks arbitrary: st)
  case Nil
  then show ?case by simp
next
  case (Cons chunk chunks)
  obtain s1 e1 where c: "indexDocumentChunk st chunk t = (s1, e1)" by force
  have e1: "e1 = None"
  proof (cases e1)
    case None then show ?thesis .
  next
    case (Some msg)
    with c Cons.prems show ?thesis by simp
  qed
  with c Cons.prems have rest: "index_chunks s1 t chunks = (st', None)" by simp
  from indexDocumentChunk_ok [OF c [unfolded e1]]
  have s1: "config s1 = config st"
    "t = StringId \<longrightarrow> stored_ids st \<union> id_value ` set chunk \<subseteq> stored_ids s1"
    "t = IntegerId \<longrightarrow>
       null_rowids (documents st) \<union> id_number ` set chunk \<subseteq> null_rowids (documents s1)"
    by blast+
  from Cons.IH [OF rest]
  have s2: "config st' = config s1"
    "t = StringId \<longrightarrow> stored_ids s1 \<union> id_value ` (\<Union> (set ` set chunks)) \<subseteq> stored_ids st'"
    "t = IntegerId \<longrightarrow>
       null_rowids (documents s1) \<union> id_number ` (\<Union> (set ` set chunks))
         \<subseteq> null_rowids (documents st')"
    by blast+
  have u: "\<Union> (set ` set (chunk # chunks)) = set chunk \<union> \<Union> (set ` set chunks)" by simp
  have a: "stored_ids st \<union> id_value ` (\<Union> (set ` set (chunk # chunks))) \<subseteq> stored_ids st'"
    if "t = StringId"
    unfolding u image_Un using that s1(2) s2(2) by blast
  have b: "null_rowids (documents st) \<union> id_number ` (\<Union> (set ` set (chunk # chunks)))
             \<subseteq> null_rowids (documents st')"
    if "t = IntegerId"
    unfolding u image_Un using that s1(3) s2(3) by blast
  from s1(1) s2(1) a b show ?case by simp
qed

lemma chunked_covers: "0 < n \<Longrightarrow> \<Union> (set ` set (chunked n xs)) = set xs"
proof (induction n xs rule: chunked.induct)
  case (1 n xs)
  show ?case
  proof (cases "xs = []")
    case True
    then show ?thesis by (subst chunked.simps) simp
  next
    case False
    with 1 have "\<Union> (set ` set (chunked n (drop n xs))) = set (drop n xs)" by simp
    moreover have "set (take n xs) \<union> set (drop n xs) = set xs"
      by (metis append_take_drop_id set_append)
    ultimately show ?thesis using False 1(2) by (subst chunked.simps) simp
  qed
qed

lemma indexDocuments_fails_readOnly:
  "truthy_bool (isReadOnly (config st)) \<Longrightarrow> \<not> success (fst (indexDocuments st docs))"
  by (simp add: indexDocuments_def)

lemma indexDocuments_fails_invalid:
  "\<not> valid (validateDocuments docs (idType_or_string (config st))) \<Longrightarrow>
   \<not> success (fst (indexDocuments st docs))"
  by (simp add: indexDocuments_def Let_def)

lemma indexDocuments_valid_nonempty:
  assumes "\<not> truthy_bool (isReadOnly (config st))"
    and "valid (validateDocuments docs (idType_or_string (config st)))"
    and "docs \<noteq> []"
  shows "indexDocuments st docs =
     (case indexDocumentsInternal st docs of
        (st', Some msg) \<Rightarrow>
          (\<lparr>success = False, indexed = 0, error = Some ''Failed to process documents'',
            details = Some msg, error_list = []\<rparr>, st')
      | (st', None) \<Rightarrow>
          (\<lparr>success = True, indexed = length docs, error = None, details = None, error_list = []\<rparr>,
           if SEARCH_CACHE st' then invalidateCache st' else st'))"
proof -
  from validateDocuments_valid [OF assms(2)] assms(3)
  have d: "data (validateDocuments docs (idType_or_string (config st))) = Some docs" by simp
  show ?thesis
    unfolding indexDocuments_def Let_def using assms d
    by (simp split: prod.splits option.splits)
qed

lemma stored_string_held:
  "JString x \<in> stored_ids s \<Longrightarrow> shard_holds s (JString x)"
  by (auto simp: stored_ids_def shard_holds_def row_holds_def)

lemma null_rowid_held:
  "n \<in> null_rowids (documents s) \<Longrightarrow> shard_holds s (JNumber (of_int n))"
  by (auto simp: null_rowids_def shard_holds_def row_holds_def)

lemma indexDocuments_success:
  assumes "indexDocuments st docs = (res, st')" and "success res"
  shows "config st' = config st \<and> (\<forall>d \<in> set docs. shard_holds st' (id_value d))"
proof -
  let ?t = "idType_or_string (config st)"
  have ro: "\<not> truthy_bool (isReadOnly (config st))"
    using assms indexDocuments_fails_readOnly [of st docs] by auto
  have v: "valid (validateDocuments docs ?t)"
    using assms indexDocuments_fails_invalid [of docs st] by auto
  note vd = validateDocuments_valid [OF v]
  show ?thesis
  proof (cases "docs = []")
    case True
    with assms(1) ro v vd have "st' = st"
      by (simp add: indexDocuments_def Let_def)
    with True show ?thesis by simp
  next
    case False
    obtain s1 e1 where i: "indexDocumentsInternal st docs = (s1, e1)" by force
    have e1: "e1 = None"
    proof (cases e1)
      case None then show ?thesis .
    next
      case (Some msg)
      with i assms indexDocuments_valid_nonempty [OF ro v False] show ?thesis by auto
    qed
    with i assms(1) indexDocuments_valid_nonempty [OF ro v False]
    have st': "st' = (if SEARCH_CACHE s1 then invalidateCache s1 else s1)" by simp
    obtain s2 e2 where ic: "index_chunks st ?t (chunked CHUNK_SIZE docs) = (s2, e2)" by force
    with i e1 False have ic': "index_chunks st ?t (chunked CHUNK_SIZE docs) = (s1, None)"
      by (cases e2) (simp_all add: indexDocumentsInternal_def)
    have cv: "\<Union> (set ` set (chunked CHUNK_SIZE docs)) = set docs"
      by (rule chunked_covers) (simp add: CHUNK_SIZE_def)
    from index_chunks_ok [OF ic']
    have s1: "config s1 = config st"
      "?t = StringId \<longrightarrow> id_value ` set docs \<subseteq> stored_ids s1"
      "?t = IntegerId \<longrightarrow> id_number ` set docs \<subseteq> null_rowids (documents s1)"
      unfolding cv by blast+
    have same: "config st' = config s1" "documents st' = documents s1"
      unfolding st' by (simp_all add: invalidateCache_def)
    have held: "shard_holds s1 (id_value d)" if d: "d \<in> set docs" for d
    proof (cases ?t)
      case StringId
      with vd d obtain x where x: "id_value d = JString x"
        using valid_string_id [of d] by auto
      from StringId s1(2) d have "id_value d \<in> stored_ids s1" by blast
      with x show ?thesis by (simp add: stored_string_held)
    next
      case IntegerId
      with vd d have x: "id_value d = JNumber (of_int (id_number d))"
        using valid_integer_id [of d] by auto
      from IntegerId s1(3) d have "id_number d \<in> null_rowids (documents s1)" by blast
      with x show ?thesis by (simp add: null_rowid_held)
    qed
    have "shard_holds st' i = shard_holds s1 i" for i
      using same(2) by (simp add: shard_holds_def)
    with held same(1) s1(1) show ?thesis by simp
  qed
qed

subsection \<open>The purge loop, one iteration\<close>

lemma purge_loop_empty:
  "purge_loop fuel P now thr prefix w idx [] = Some (Returned, w, idx, [])"
  by (cases fuel) simp_all

lemma purge_loop_step:
  assumes "purge_loop (Suc fuel) P now thr prefix w idx rem = Some (out, w', i', moves)"
    and "rem \<noteq> []"
  shows "(available_space P w thr prefix idx \<le> 0
            \<and> purge_loop fuel P now thr prefix w (idx + 1) rem = Some (out, w', i', moves))
       \<or> (0 < available_space P w thr prefix idx \<and> out \<noteq> Returned)
       \<or> (0 < available_space P w thr prefix idx
            \<and> (\<exists>res w1 w2 idx2 ms.
                  rpc_indexDocuments w (ColdStorage_DO (coldStorageName prefix idx))
                      (map row_document (take (nat (available_space P w thr prefix idx)) rem))
                    = Some (res, w1)
                  \<and> success res
                  \<and> (w2 = w1 \<or> rpc_configureRPC P now w1 (ColdStorage_DO (coldStorageName prefix idx))
                                   (empty_config\<lparr>isReadOnly := Some True\<rparr>) = Some w2)
                  \<and> idx2 = (if int (length (take (nat (available_space P w thr prefix idx)) rem))
                                   = available_space P w thr prefix idx
                              then idx + 1 else idx)
                  \<and> purge_loop fuel P now thr prefix w2 idx2
                       (drop (nat (available_space P w thr prefix idx)) rem) = Some (out, w', i', ms)
                  \<and> moves = \<lparr>move_name = coldStorageName prefix idx,
                              move_rows = take (nat (available_space P w thr prefix idx)) rem,
                              move_ok = True\<rparr> # ms))"
proof (cases "available_space P w thr prefix idx \<le> 0")
  case True
  with assms show ?thesis
    by (simp add: available_space_def Let_def)
next
  case False
  let ?a = "ColdStorage_DO (coldStorageName prefix idx)"
  let ?n = "nat (available_space P w thr prefix idx)"
  show ?thesis
  proof (cases "rpc_indexDocuments w ?a (map row_document (take ?n rem))")
    case None
    with assms False have "out \<noteq> Returned"
      by (auto simp: available_space_def Let_def)
    with False show ?thesis by simp
  next
    case (Some rw)
    obtain res w1 where rw: "rw = (res, w1)" by force
    show ?thesis
    proof (cases "success res")
      case no: False
      with assms False Some rw have "out \<noteq> Returned"
        by (auto simp: available_space_def Let_def)
      with False show ?thesis by simp
    next
      case yes: True
      let ?c = "(if count (case rpc_getStats P w ?a of Some s \<Rightarrow> s
                              | None \<Rightarrow> \<lparr>count = 0, estimatedSize = 0, stats_isReadOnly = None\<rparr>) = 0
                 then rpc_configureRPC P now w1 ?a (empty_config\<lparr>isReadOnly := Some True\<rparr>)
                 else Some w1)"
      show ?thesis
      proof (cases ?c)
        case None
        with assms False Some rw yes have "out \<noteq> Returned"
          by (auto simp: available_space_def Let_def)
        with False show ?thesis by simp
      next
        case c: (Some w2)
        let ?i2 = "(if int (length (take ?n rem)) = available_space P w thr prefix idx
                    then idx + 1 else idx)"
        have w2: "w2 = w1 \<or> rpc_configureRPC P now w1 ?a (empty_config\<lparr>isReadOnly := Some True\<rparr>) = Some w2"
          using c by (auto split: if_splits)
        show ?thesis
        proof (cases "purge_loop fuel P now thr prefix w2 ?i2 (drop ?n rem)")
          case None
          with assms False Some rw yes c show ?thesis
            by (simp add: available_space_def Let_def)
        next
          case r: (Some q)
          obtain o3 w3 i3 ms where q: "q = (o3, w3, i3, ms)" by (cases q) auto
          with assms False Some rw yes c r
          have "out = o3 \<and> w' = w3 \<and> i' = i3
                \<and> moves = \<lparr>move_name = coldStorageName prefix idx, move_rows = take ?n rem,
                            move_ok = True\<rparr> # ms"
            by (auto simp: available_space_def Let_def)
          then have e: "purge_loop fuel P now thr prefix w2 ?i2 (drop ?n rem) = Some (out, w', i', ms)"
            "moves = \<lparr>move_name = coldStorageName prefix idx, move_rows = take ?n rem,
                      move_ok = True\<rparr> # ms"
            using r q by simp_all
          have "\<exists>res w1 w2 idx2 ms.
                  rpc_indexDocuments w ?a (map row_document (take ?n rem)) = Some (res, w1)
                  \<and> success res
                  \<and> (w2 = w1 \<or> rpc_configureRPC P now w1 ?a (empty_config\<lparr>isReadOnly := Some True\<rparr>)
                                   = Some w2)
                  \<and> idx2 = ?i2
                  \<and> purge_loop fuel P now thr prefix w2 idx2 (drop ?n rem) = Some (out, w', i', ms)
                  \<and> moves = \<lparr>move_name = coldStorageName prefix idx, move_rows = take ?n rem,
                              move_ok = True\<rparr> # ms"
            using Some rw yes w2 e by blast
          with False show ?thesis by simp
        qed
      qed
    qed
  qed
qed

subsection \<open>The purge loop, invariant\<close>

lemma objects_put_object:
  "objects (put_object w a s) b = (if b = a then s else objects w b)"
  by (simp add: put_object_def)

lemma rpc_indexDocuments_success:
  assumes "rpc_indexDocuments w a docs = Some (res, w1)"
    and "success res"
  shows "(\<forall>b. b \<noteq> a \<longrightarrow> objects w1 b = objects w b)
         \<and> (\<forall>d \<in> set docs. shard_holds (objects w1 a) (id_value d))"
proof -
  obtain r s' where i: "indexDocuments (objects w a) docs = (r, s')" by force
  with assms(1) have res: "r = res" and w1: "w1 = put_object w a s'"
    by (auto simp: rpc_indexDocuments_def split: if_splits)
  from indexDocuments_success [OF i [unfolded res] assms(2)]
  have "\<forall>d \<in> set docs. shard_holds s' (id_value d)" by blast
  then show ?thesis unfolding w1 by (simp add: objects_put_object)
qed

lemma configure_readOnly_keeps:
  "documents (configure P now s (empty_config\<lparr>isReadOnly := Some True\<rparr>)) = documents s
   \<and> idType (config (configure P now s (empty_config\<lparr>isReadOnly := Some True\<rparr>))) = idType (config s)"
  by (simp add: configure_def Let_def merge_config_def empty_config_def spread_def)

lemma rpc_configureRPC_keeps:
  assumes "rpc_configureRPC P now w1 a (empty_config\<lparr>isReadOnly := Some True\<rparr>) = Some w2"
  shows "(\<forall>b. b \<noteq> a \<longrightarrow> objects w2 b = objects w1 b)
         \<and> documents (objects w2 a) = documents (objects w1 a)"
proof -
  let ?s = "configure P now (objects w1 a) (empty_config\<lparr>isReadOnly := Some True\<rparr>)"
  from assms have w2: "w2 = put_object w1 a ?s"
    by (auto simp: rpc_configureRPC_def split: if_splits)
  have "documents ?s = documents (objects w1 a)"
    using configure_readOnly_keeps [of P now "objects w1 a"] by blast
  then show ?thesis unfolding w2 by (simp add: objects_put_object)
qed

lemma purge_loop_invariant:
  assumes "purge_loop fuel P now thr prefix w idx rem = Some (out, w', i', moves)"
    and "out = Returned"
  shows "list_all move_ok moves \<and> concat (map move_rows moves) = rem"
  using assms
proof (induction fuel arbitrary: w idx rem moves)
  case 0
  then show ?case by (simp split: if_splits)
next
  case (Suc fuel)
  show ?case
  proof (cases "rem = []")
    case True
    with Suc.prems show ?thesis by simp
  next
    case False
    let ?av = "available_space P w thr prefix idx"
    let ?a = "ColdStorage_DO (coldStorageName prefix idx)"
    from purge_loop_step [OF Suc.prems(1) False] Suc.prems(2)
    consider
      (skip) "purge_loop fuel P now thr prefix w (idx + 1) rem = Some (out, w', i', moves)"
    | (move) w2 idx2 ms where
        "purge_loop fuel P now thr prefix w2 idx2 (drop (nat ?av) rem) = Some (out, w', i', ms)"
        "moves = \<lparr>move_name = coldStorageName prefix idx, move_rows = take (nat ?av) rem,
                  move_ok = True\<rparr> # ms"
      by blast
    then show ?thesis
    proof cases
      case skip
      from Suc.IH [OF skip Suc.prems(2)] show ?thesis .
    next
      case move
      note ih = Suc.IH [OF move(1) Suc.prems(2)]
      have a: "list_all move_ok moves" using ih move(2) by simp
      have b: "concat (map move_rows moves) = rem"
        using ih move(2) by simp
      from a b show ?thesis by blast
    qed
  qed
qed

subsection \<open>The purge step on the primary\<close>

lemma oldest_covers_deleted:
  assumes d: "distinct (map rowid rows)"
    and sel: "sel = sql_limit n (sort_key rowid rows)"
    and ne: "sel \<noteq> []"
    and r: "r \<in> set rows"
    and le: "rowid r \<le> rowid (last sel)"
  shows "r \<in> set sel"
proof (cases "n < 0")
  case True
  with sel r show ?thesis by (simp add: sql_limit_def)
next
  case False
  let ?s = "sort_key rowid rows"
  let ?k = "nat n"
  from False sel have sel': "sel = take ?k ?s" by (simp add: sql_limit_def)
  have inj: "inj_on rowid (set ?s)" using d by (simp add: distinct_map)
  have srt: "sorted (map rowid (take ?k ?s @ drop ?k ?s))" by simp
  have "r \<in> set (take ?k ?s) \<union> set (drop ?k ?s)"
    using r by (metis append_take_drop_id set_append set_sort)
  then show ?thesis
  proof
    assume "r \<in> set (take ?k ?s)"
    with sel' show ?thesis by simp
  next
    assume rd: "r \<in> set (drop ?k ?s)"
    have l: "last sel \<in> set (take ?k ?s)" using ne sel' by (metis last_in_set)
    from srt have "\<forall>x \<in> set (take ?k ?s). \<forall>y \<in> set (drop ?k ?s). rowid x \<le> rowid y"
      unfolding map_append sorted_append by auto
    with l rd have "rowid (last sel) \<le> rowid r" by blast
    with le have "rowid r = rowid (last sel)" by simp
    moreover have "r \<in> set ?s" using rd by (meson in_set_dropD)
    moreover have "last sel \<in> set ?s" using l by (meson in_set_takeD)
    ultimately have "r = last sel" using inj by (meson inj_onD)
    with l sel' show ?thesis by simp
  qed
qed

lemma purgeOldData_shape:
  assumes "purgeOldData fuel P now st w = Some (out, st', w', moves)"
  shows "(documents st' = documents st \<and> (out = Returned \<longrightarrow> moves = []))
       \<or> (\<exists>sel i'.
             sel \<noteq> []
             \<and> sel = sql_limit (numToPurge (config st) (length (documents st)))
                       (sort_key rowid (documents st))
             \<and> purge_loop fuel P now (coldStorageThreshold (config st))
                  (str_or (coldStoragePrefix (config st)) ''cold-storage'') w
                  (num_or (currentColdStorageIndex (config st)) 0) sel
                 = Some (Returned, w', i', moves)
             \<and> out = Returned
             \<and> documents st' = filter (\<lambda>r. \<not> rowid r \<le> rowid (last sel)) (documents st))"
proof (cases "sql_count st")
  case (Inl msg)
  with assms show ?thesis by (auto simp: purgeOldData_def)
next
  case (Inr cnt)
  then have cnt: "cnt = length (documents st)"
    by (auto simp: sql_count_def split: option.splits)
  let ?reached = "(truthy_num (purgeThresholdDocs (config st))
                 \<and> int cnt \<ge> the (purgeThresholdDocs (config st)))
                 \<or> databaseSize P (documents st) > 9000000000"
  show ?thesis
  proof (cases ?reached)
    case False
    with assms Inr show ?thesis by (auto simp: purgeOldData_def Let_def)
  next
    case True
    show ?thesis
    proof (cases "sql_select_oldest st (numToPurge (config st) cnt)")
      case (Inl msg)
      with assms Inr True show ?thesis by (auto simp: purgeOldData_def Let_def)
    next
      case sel: (Inr sel)
      then have sel_eq: "sel = sql_limit (numToPurge (config st) (length (documents st)))
                       (sort_key rowid (documents st))"
        unfolding cnt by (auto simp: sql_select_oldest_def split: option.splits)
      show ?thesis
      proof (cases "sel = []")
        case e: True
        with assms Inr True sel show ?thesis by (auto simp: purgeOldData_def Let_def)
      next
        case ne: False
        let ?i0 = "num_or (currentColdStorageIndex (config st)) 0"
        let ?loop = "purge_loop fuel P now (coldStorageThreshold (config st))
                  (str_or (coldStoragePrefix (config st)) ''cold-storage'') w ?i0 sel"
        show ?thesis
        proof (cases ?loop)
          case None
          with assms Inr True sel ne show ?thesis by (auto simp: purgeOldData_def Let_def)
        next
          case (Some q)
          obtain o1 w1 i1 ms where q: "q = (o1, w1, i1, ms)" by (cases q) auto
          show ?thesis
          proof (cases o1)
            case (Threw msg)
            with assms Inr True sel ne Some q show ?thesis
              by (auto simp: purgeOldData_def Let_def)
          next
            case Returned
            let ?st1 = "(if i1 \<noteq> ?i0
                         then st\<lparr>kv_currentColdStorageIndex := Some i1,
                                 config := (config st)\<lparr>currentColdStorageIndex := Some i1\<rparr>\<rparr>
                         else st)"
            have d1: "documents ?st1 = documents st" by simp
            show ?thesis
            proof (cases "sql_write ?st1 (DeleteUpTo (rowid (last sel)))")
              case (Inl msg)
              with assms Inr True sel ne Some q Returned
              have "out = Threw msg \<and> st' = ?st1"
                by (auto simp: purgeOldData_def Let_def)
              with d1 show ?thesis by simp
            next
              case w: (Inr st2)
              with assms Inr True sel ne Some q Returned
              have r: "out = Returned" "st' = st2" "w' = w1" "moves = ms"
                by (auto simp: purgeOldData_def Let_def)
              from sql_write_config [OF w] d1
              have "documents st2 = filter (\<lambda>r. \<not> rowid r \<le> rowid (last sel)) (documents st)"
                by simp
              with r Some q Returned ne sel_eq show ?thesis by auto
            qed
          qed
        qed
      qed
    qed
  qed
qed



subsection \<open>The purge loop returns\<close>

text \<open>
  The names of the cold shards are distinct, so a write to one shard leaves the free
  space of the others as it was.  With a positive capacity and only empty shards from
  some index on, the loop ends within as many iterations as there are rows to move
  and shards to skip.
\<close>

lemma decimal_nonempty: "decimal n \<noteq> []"
  by (subst decimal.simps) simp

lemma of_char_minus: "(of_char (CHR ''-'') :: nat) = 45"
  by simp

lemma digit_not_minus: "d < 10 \<Longrightarrow> char_of (48 + d) \<noteq> CHR ''-''" for d :: nat
proof
  assume d: "d < 10" and e: "char_of (48 + d) = CHR ''-''"
  have "(of_char (char_of (48 + d)) :: nat) = (48 + d) mod 256" by (simp only: of_char_of)
  also have "\<dots> = 48 + d" using d by simp
  finally have "(of_char (char_of (48 + d)) :: nat) = 48 + d" .
  with e of_char_minus show False by simp
qed

lemma decimal_digits: "c \<in> set (decimal n) \<Longrightarrow> c \<noteq> CHR ''-''"
proof (induction n rule: decimal.induct)
  case (1 n)
  show ?case
  proof (cases "n < 10")
    case True
    have "decimal n = [char_of (48 + n)]" using True by (subst decimal.simps) simp
    with "1.prems" have "c = char_of (48 + n)" by simp
    with True show ?thesis by (simp only: digit_not_minus not_False_eq_True)
  next
    case False
    have "decimal n = decimal (n div 10) @ [char_of (48 + n mod 10)]"
      using False by (subst decimal.simps) simp
    with "1.prems" have "c \<in> set (decimal (n div 10)) \<or> c = char_of (48 + n mod 10)"
      by auto
    then show ?thesis
    proof
      assume "c \<in> set (decimal (n div 10))"
      with "1.IH" False show ?thesis by simp
    next
      assume c: "c = char_of (48 + n mod 10)"
      have "n mod 10 < 10" by simp
      then show ?thesis unfolding c by (rule digit_not_minus)
    qed
  qed
qed


lemma digit_inj: "a < 10 \<Longrightarrow> b < 10 \<Longrightarrow> char_of (48 + a) = char_of (48 + b) \<Longrightarrow> a = b"
  for a b :: nat
proof -
  assume a: "a < 10" and b: "b < 10" and e: "char_of (48 + a) = char_of (48 + b)"
  from e have "(of_char (char_of (48 + a)) :: nat) = of_char (char_of (48 + b))" by simp
  then have "(48 + a) mod 256 = (48 + b) mod 256" by (simp only: of_char_of)
  with a b show "a = b" by simp
qed

lemma decimal_small: "n < 10 \<Longrightarrow> decimal n = [char_of (48 + n)]"
  by (subst decimal.simps) simp

lemma decimal_large:
  "\<not> n < 10 \<Longrightarrow> decimal n = decimal (n div 10) @ [char_of (48 + n mod 10)]"
  by (subst decimal.simps) simp

lemma decimal_inj: "decimal n = decimal m \<Longrightarrow> n = m"
proof (induction n arbitrary: m rule: decimal.induct)
  case (1 n)
  show ?case
  proof (cases "n < 10")
    case n: True
    show ?thesis
    proof (cases "m < 10")
      case True
      with n "1.prems" show ?thesis by (simp add: decimal_small digit_inj)
    next
      case False
      with n "1.prems" decimal_nonempty [of "m div 10"] show ?thesis
        by (simp add: decimal_small decimal_large)
    qed
  next
    case n: False
    show ?thesis
    proof (cases "m < 10")
      case True
      with n "1.prems" decimal_nonempty [of "n div 10"] show ?thesis
        by (simp add: decimal_small decimal_large)
    next
      case False
      with n "1.prems"
      have e: "decimal (n div 10) = decimal (m div 10)"
        "char_of (48 + n mod 10) = char_of (48 + m mod 10)"
        by (simp_all add: decimal_large)
      from "1.IH" [OF n e(1)] have d: "n div 10 = m div 10" .
      have "n mod 10 = m mod 10"
        using e(2) by (intro digit_inj) simp_all
      with d show ?thesis by (metis div_mult_mod_eq)
    qed
  qed
qed

lemma number_string_inj: "number_string i = number_string j \<Longrightarrow> i = j"
proof -
  assume e: "number_string i = number_string j"
  have neg: "hd (number_string k) = CHR ''-''" if "k < 0" for k
    using that by (simp add: number_string_def)
  have pos: "hd (number_string k) \<noteq> CHR ''-''" if "\<not> k < 0" for k
  proof -
    have "hd (decimal (nat k)) \<in> set (decimal (nat k))"
      using decimal_nonempty by simp
    then have "hd (decimal (nat k)) \<noteq> CHR ''-''" by (rule decimal_digits)
    with that show ?thesis by (simp add: number_string_def)
  qed
  show "i = j"
  proof (cases "i < 0")
    case True
    with e neg [of i] pos [of j] have j: "j < 0" by (cases "j < 0") auto
    with True e have "decimal (nat (- i)) = decimal (nat (- j))"
      by (simp add: number_string_def)
    then have "nat (- i) = nat (- j)" by (rule decimal_inj)
    with True j show ?thesis by simp
  next
    case False
    with e neg [of j] pos [of i] have j: "\<not> j < 0" by (cases "j < 0") auto
    with False e have "decimal (nat i) = decimal (nat j)"
      by (simp add: number_string_def)
    then have "nat i = nat j" by (rule decimal_inj)
    with False j show ?thesis by simp
  qed
qed

lemma coldStorageName_inj: "coldStorageName prefix i = coldStorageName prefix j \<Longrightarrow> i = j"
  by (simp add: coldStorageName_def number_string_inj)

lemma rpc_indexDocuments_world:
  "rpc_indexDocuments w a docs = Some (res, w1) \<Longrightarrow> \<exists>s. w1 = put_object w a s"
  by (auto simp: rpc_indexDocuments_def split: if_splits prod.splits)

lemma rpc_configureRPC_world:
  "rpc_configureRPC P now w1 a cfg = Some w2 \<Longrightarrow> \<exists>s. w2 = put_object w1 a s"
  by (auto simp: rpc_configureRPC_def split: if_splits)

lemma available_space_put_other:
  "coldStorageName prefix j \<noteq> n \<Longrightarrow>
   available_space P (put_object w (ColdStorage_DO n) s) thr prefix j
     = available_space P w thr prefix j"
  by (simp add: available_space_def rpc_getStats_def put_object_def)

lemma purge_loop_Suc_returns:
  assumes "rem \<noteq> []"
    and skip: "available_space P w thr prefix idx \<le> 0 \<Longrightarrow>
               purge_loop fuel P now thr prefix w (idx + 1) rem \<noteq> None"
    and move: "\<And>res w1 w2.
        0 < available_space P w thr prefix idx \<Longrightarrow>
        rpc_indexDocuments w (ColdStorage_DO (coldStorageName prefix idx))
            (map row_document (take (nat (available_space P w thr prefix idx)) rem)) = Some (res, w1) \<Longrightarrow>
        w2 = w1 \<or> rpc_configureRPC P now w1 (ColdStorage_DO (coldStorageName prefix idx))
                     (empty_config\<lparr>isReadOnly := Some True\<rparr>) = Some w2 \<Longrightarrow>
        purge_loop fuel P now thr prefix w2
           (if int (length (take (nat (available_space P w thr prefix idx)) rem))
                 = available_space P w thr prefix idx
            then idx + 1 else idx)
           (drop (nat (available_space P w thr prefix idx)) rem) \<noteq> None"
  shows "purge_loop (Suc fuel) P now thr prefix w idx rem \<noteq> None"
proof (cases "available_space P w thr prefix idx \<le> 0")
  case True
  with assms(1) skip show ?thesis by (simp add: available_space_def Let_def)
next
  case False
  let ?a = "ColdStorage_DO (coldStorageName prefix idx)"
  let ?n = "nat (available_space P w thr prefix idx)"
  show ?thesis
  proof (cases "rpc_indexDocuments w ?a (map row_document (take ?n rem))")
    case None
    with assms(1) False show ?thesis by (simp add: available_space_def Let_def)
  next
    case (Some rw)
    obtain res w1 where rw: "rw = (res, w1)" by force
    show ?thesis
    proof (cases "success res")
      case no: False
      with assms(1) False Some rw show ?thesis by (simp add: available_space_def Let_def)
    next
      case yes: True
      let ?c = "(if count (case rpc_getStats P w ?a of Some s \<Rightarrow> s
                              | None \<Rightarrow> \<lparr>count = 0, estimatedSize = 0, stats_isReadOnly = None\<rparr>) = 0
                 then rpc_configureRPC P now w1 ?a (empty_config\<lparr>isReadOnly := Some True\<rparr>)
                 else Some w1)"
      show ?thesis
      proof (cases ?c)
        case None
        with assms(1) False Some rw yes show ?thesis by (simp add: available_space_def Let_def)
      next
        case c: (Some w2)
        have w2: "w2 = w1 \<or> rpc_configureRPC P now w1 ?a (empty_config\<lparr>isReadOnly := Some True\<rparr>) = Some w2"
          using c by (auto split: if_splits)
        from False have pos: "0 < available_space P w thr prefix idx" by simp
        from move [OF pos Some [unfolded rw] w2]
        obtain q where q: "purge_loop fuel P now thr prefix w2
           (if int (length (take ?n rem)) = available_space P w thr prefix idx then idx + 1 else idx)
           (drop ?n rem) = Some q"
          by blast
        obtain o3 w3 i3 ms where "q = (o3, w3, i3, ms)" by (cases q) auto
        with assms(1) False Some rw yes c q show ?thesis
          by (simp add: available_space_def Let_def)
      qed
    qed
  qed
qed

lemma purge_loop_returns:
  assumes thr: "0 < thr"
  shows "(\<forall>j \<ge> N. available_space P w thr prefix j = thr) \<Longrightarrow>
         length rem + nat (N - idx) \<le> fuel \<Longrightarrow>
         purge_loop fuel P now thr prefix w idx rem \<noteq> None"
proof (induction fuel arbitrary: w idx rem N)
  case 0
  then show ?case by simp
next
  case (Suc fuel)
  show ?case
  proof (cases "rem = []")
    case True
    then show ?thesis by (simp add: purge_loop_empty)
  next
    case False
    let ?av = "available_space P w thr prefix idx"
    let ?a = "ColdStorage_DO (coldStorageName prefix idx)"
    show ?thesis
    proof (rule purge_loop_Suc_returns [OF False])
      assume full: "?av \<le> 0"
      have "idx < N"
      proof (rule ccontr)
        assume "\<not> idx < N"
        with Suc.prems(1) have "?av = thr" by simp
        with full thr show False by simp
      qed
      with Suc.prems(2) have "length rem + nat (N - (idx + 1)) \<le> fuel" by simp
      from Suc.IH [OF Suc.prems(1) this]
      show "purge_loop fuel P now thr prefix w (idx + 1) rem \<noteq> None" .
    next
      fix res w1 w2
      assume pos: "0 < ?av"
        and ix: "rpc_indexDocuments w ?a (map row_document (take (nat ?av) rem)) = Some (res, w1)"
        and cf: "w2 = w1 \<or> rpc_configureRPC P now w1 ?a (empty_config\<lparr>isReadOnly := Some True\<rparr>) = Some w2"
      from rpc_indexDocuments_world [OF ix] obtain s1 where w1: "w1 = put_object w ?a s1" by blast
      have other: "available_space P w2 thr prefix j = available_space P w thr prefix j"
        if "j \<noteq> idx" for j
      proof -
        from that have n: "coldStorageName prefix j \<noteq> coldStorageName prefix idx"
          using coldStorageName_inj by blast
        have 1: "available_space P w1 thr prefix j = available_space P w thr prefix j"
          unfolding w1 using n by (rule available_space_put_other)
        from cf show ?thesis
        proof
          assume "w2 = w1" with 1 show ?thesis by simp
        next
          assume "rpc_configureRPC P now w1 ?a (empty_config\<lparr>isReadOnly := Some True\<rparr>) = Some w2"
          from rpc_configureRPC_world [OF this] obtain s2 where "w2 = put_object w1 ?a s2" by blast
          with available_space_put_other [OF n, of P w1 s2 thr] 1 show ?thesis by simp
        qed
      qed
      show "purge_loop fuel P now thr prefix w2
              (if int (length (take (nat ?av) rem)) = ?av then idx + 1 else idx)
              (drop (nat ?av) rem) \<noteq> None"
      proof (cases "int (length (take (nat ?av) rem)) = ?av")
        case False
        then have "length rem < nat ?av" using pos by (simp add: min_def split: if_splits)
        then have "drop (nat ?av) rem = []" by simp
        with False show ?thesis by (simp add: purge_loop_empty)
      next
        case True
        let ?N = "max N (idx + 1)"
        have fresh: "\<forall>j \<ge> ?N. available_space P w2 thr prefix j = thr"
          using other Suc.prems(1) by simp
        have "length (drop (nat ?av) rem) < length rem"
          using pos \<open>rem \<noteq> []\<close> by simp
        moreover have "nat (?N - (idx + 1)) \<le> nat (N - idx)" by simp
        ultimately have "length (drop (nat ?av) rem) + nat (?N - (idx + 1)) \<le> fuel"
          using Suc.prems(2) by linarith
        from Suc.IH [OF fresh this] True show ?thesis by simp
      qed
    qed
  qed
qed

lemma sql_limit_length: "length (sql_limit n xs) \<le> length xs"
  by (simp add: sql_limit_def)

lemma purgeOldData_returns:
  assumes "0 < coldStorageThreshold (config st)"
    and "\<forall>j \<ge> N. available_space P w (coldStorageThreshold (config st))
                     (str_or (coldStoragePrefix (config st)) ''cold-storage'') j
                   = coldStorageThreshold (config st)"
    and "length (documents st) + nat (N - num_or (currentColdStorageIndex (config st)) 0) \<le> fuel"
  shows "purgeOldData fuel P now st w \<noteq> None"
proof -
  have loop: "purge_loop fuel P now (coldStorageThreshold (config st))
           (str_or (coldStoragePrefix (config st)) ''cold-storage'') w
           (num_or (currentColdStorageIndex (config st)) 0)
           (sql_limit n (sort_key rowid (documents st))) \<noteq> None" for n
  proof (rule purge_loop_returns [OF assms(1,2)])
    have "length (sql_limit n (sort_key rowid (documents st))) \<le> length (documents st)"
      using sql_limit_length [of n "sort_key rowid (documents st)"] by simp
    with assms(3)
    show "length (sql_limit n (sort_key rowid (documents st)))
            + nat (N - num_or (currentColdStorageIndex (config st)) 0) \<le> fuel"
      by linarith
  qed
  show ?thesis
    using loop [of "numToPurge (config st) (length (documents st))"]
    by (auto simp: purgeOldData_def Let_def sql_select_oldest_def sql_count_def
             split: sum.splits option.splits prod.splits outcome.splits if_splits)
qed

subsection \<open>The purge loop: the rows sent are held in cold storage\<close>

lemma purge_loop_frame:
  assumes "purge_loop fuel P now thr prefix w idx rem = Some (out, w', i', moves)"
    and "out = Returned"
    and "\<forall>j \<ge> idx. b \<noteq> ColdStorage_DO (coldStorageName prefix j)"
  shows "objects w' b = objects w b"
  using assms
proof (induction fuel arbitrary: w idx rem moves)
  case 0
  then show ?case by (simp split: if_splits)
next
  case (Suc fuel)
  show ?case
  proof (cases "rem = []")
    case True
    with Suc.prems show ?thesis by simp
  next
    case False
    let ?av = "available_space P w thr prefix idx"
    let ?a = "ColdStorage_DO (coldStorageName prefix idx)"
    from purge_loop_step [OF Suc.prems(1) False] Suc.prems(2)
    consider
      (skip) "purge_loop fuel P now thr prefix w (idx + 1) rem = Some (out, w', i', moves)"
    | (move) res w1 w2 idx2 ms where
        "rpc_indexDocuments w ?a (map row_document (take (nat ?av) rem)) = Some (res, w1)"
        "w2 = w1 \<or> rpc_configureRPC P now w1 ?a (empty_config\<lparr>isReadOnly := Some True\<rparr>) = Some w2"
        "idx2 = (if int (length (take (nat ?av) rem)) = ?av then idx + 1 else idx)"
        "purge_loop fuel P now thr prefix w2 idx2 (drop (nat ?av) rem) = Some (out, w', i', ms)"
      by blast
    then show ?thesis
    proof cases
      case skip
      have "\<forall>j \<ge> idx + 1. b \<noteq> ColdStorage_DO (coldStorageName prefix j)"
        using Suc.prems(3) by simp
      from Suc.IH [OF skip Suc.prems(2) this] show ?thesis .
    next
      case move
      have ba: "b \<noteq> ?a" using Suc.prems(3) by simp
      from rpc_indexDocuments_world [OF move(1)] obtain s1 where "w1 = put_object w ?a s1" by blast
      with ba have 1: "objects w1 b = objects w b" by (simp add: objects_put_object)
      have 2: "objects w2 b = objects w1 b"
        using move(2)
      proof
        assume "w2 = w1"
        then show ?thesis by simp
      next
        assume "rpc_configureRPC P now w1 ?a (empty_config\<lparr>isReadOnly := Some True\<rparr>) = Some w2"
        from rpc_configureRPC_world [OF this] obtain s2 where "w2 = put_object w1 ?a s2" by blast
        with ba show ?thesis by (simp add: objects_put_object)
      qed
      have "idx \<le> idx2" using move(3) by simp
      with Suc.prems(3) have "\<forall>j \<ge> idx2. b \<noteq> ColdStorage_DO (coldStorageName prefix j)"
        by simp
      from Suc.IH [OF move(4) Suc.prems(2) this] have "objects w' b = objects w2 b" .
      with 1 2 show ?thesis by simp
    qed
  qed
qed

lemma held_cold_shard:
  "shard_holds (objects w (ColdStorage_DO name)) i \<Longrightarrow> held_cold w i"
  unfolding held_cold_def by blast

lemma purge_loop_held:
  assumes "purge_loop fuel P now thr prefix w idx rem = Some (out, w', i', moves)"
    and "out = Returned"
  shows "\<forall>r \<in> set rem. held_cold w' (id_col r)"
  using assms
proof (induction fuel arbitrary: w idx rem moves)
  case 0
  then show ?case by (simp split: if_splits)
next
  case (Suc fuel)
  show ?case
  proof (cases "rem = []")
    case True
    then show ?thesis by simp
  next
    case False
    let ?av = "available_space P w thr prefix idx"
    let ?name = "coldStorageName prefix idx"
    let ?a = "ColdStorage_DO ?name"
    let ?taken = "take (nat ?av) rem"
    let ?rest = "drop (nat ?av) rem"
    from purge_loop_step [OF Suc.prems(1) False] Suc.prems(2)
    consider
      (skip) "purge_loop fuel P now thr prefix w (idx + 1) rem = Some (out, w', i', moves)"
    | (move) res w1 w2 idx2 ms where
        "0 < ?av"
        "rpc_indexDocuments w ?a (map row_document ?taken) = Some (res, w1)"
        "success res"
        "w2 = w1 \<or> rpc_configureRPC P now w1 ?a (empty_config\<lparr>isReadOnly := Some True\<rparr>) = Some w2"
        "idx2 = (if int (length ?taken) = ?av then idx + 1 else idx)"
        "purge_loop fuel P now thr prefix w2 idx2 ?rest = Some (out, w', i', ms)"
      by blast
    then show ?thesis
    proof cases
      case skip
      from Suc.IH [OF skip Suc.prems(2)] show ?thesis .
    next
      case move
      from rpc_indexDocuments_success [OF move(2,3)]
      have "\<forall>d \<in> set (map row_document ?taken). shard_holds (objects w1 ?a) (id_value d)"
        by blast
      then have h1: "\<forall>r \<in> set ?taken. shard_holds (objects w1 ?a) (id_col r)"
        by (simp add: row_document_def id_value_def)
      have d2: "documents (objects w2 ?a) = documents (objects w1 ?a)"
        using move(4) rpc_configureRPC_keeps [of P now w1 ?a w2] by auto
      have same: "objects w' ?a = objects w2 ?a"
      proof (cases "?rest = []")
        case True
        with move(6) show ?thesis by (simp add: purge_loop_empty)
      next
        case ne: False
        then have "nat ?av < length rem" by simp
        then have "int (length ?taken) = ?av" using move(1) by simp
        with move(5) have i2: "idx2 = idx + 1" by simp
        have "\<forall>j \<ge> idx + 1. ?a \<noteq> ColdStorage_DO (coldStorageName prefix j)"
        proof (intro allI impI)
          fix j assume "idx + 1 \<le> j"
          then have "j \<noteq> idx" by simp
          then have "coldStorageName prefix idx \<noteq> coldStorageName prefix j"
            using coldStorageName_inj [of prefix idx j] by auto
          then show "?a \<noteq> ColdStorage_DO (coldStorageName prefix j)" by simp
        qed
        from purge_loop_frame [OF move(6) [unfolded i2] Suc.prems(2) this] show ?thesis .
      qed
      have t: "\<forall>r \<in> set ?taken. held_cold w' (id_col r)"
      proof
        fix r assume "r \<in> set ?taken"
        with h1 have "shard_holds (objects w1 ?a) (id_col r)" by blast
        then have "shard_holds (objects w' ?a) (id_col r)"
          using d2 same by (simp add: shard_holds_def)
        then show "held_cold w' (id_col r)" by (rule held_cold_shard)
      qed
      from Suc.IH [OF move(6) Suc.prems(2)]
      have 3: "\<forall>r \<in> set ?rest. held_cold w' (id_col r)" .
      have "set rem = set ?taken \<union> set ?rest"
        by (metis append_take_drop_id set_append)
      with t 3 show ?thesis by blast
    qed
  qed
qed

subsection \<open>Purge: deletion after the cold writes\<close>

lemma purge_example_run:
  "(case purgeOldData 5 P_ex 1000 purge_primary fresh_world of
      Some (out, st', w', moves) \<Rightarrow>
        out = Returned \<and> map rowid (documents st') = [4, 5]
        \<and> map move_name moves = [''cold-0'', ''cold-1'']
        \<and> map (map rowid \<circ> move_rows) moves = [1, 2] # [3] # []
        \<and> map id_col (documents (objects w' (ColdStorage_DO ''cold-0''))) = [JString ''a'', JString ''b'']
        \<and> map id_col (documents (objects w' (ColdStorage_DO ''cold-1''))) = [JString ''c'']
    | None \<Rightarrow> False)"
  by code_simp

text \<open>
  In integer mode a document is stored under its id as row id, with no value in the
  column \<open>id\<close>, and a row id beyond 64 bits is refused.  The rows of a primary in
  integer mode are read back without an id: the cold shard rejects them and the purge
  step throws with the table unchanged.
\<close>

lemma integer_mode_run:
  "map rowid (documents integer_primary) = [1, 2, 3, 4, 5]
   \<and> map id_col (documents integer_primary) = [JOther, JOther, JOther, JOther, JOther]
   \<and> details (fst (indexDocuments integer_shard [Doc (JNumber (2 ^ 63)) (JString ''alpha beta'')]))
       = Some ''Indexing failed: datatype mismatch''
   \<and> (case purgeOldData 5 P_ex 1000 integer_primary fresh_world of
         Some (out, st', w', moves) \<Rightarrow>
           out = Threw ''Failed to move documents to cold storage cold-0: Invalid documents''
           \<and> documents st' = documents integer_primary
           \<and> map move_ok moves = [False]
       | None \<Rightarrow> False)"
  by code_simp

lemma purge_step_safe:
  assumes "purgeOldData fuel P now st w = Some (out, st', w', moves)"
  shows "(\<not> list_all move_ok moves \<longrightarrow> out \<noteq> Returned \<and> documents st' = documents st)
       \<and> (out \<noteq> Returned \<longrightarrow> documents st' = documents st)
       \<and> (documents st' \<noteq> documents st \<longrightarrow>
            out = Returned \<and> list_all move_ok moves
            \<and> concat (map move_rows moves)
                = sql_limit (numToPurge (config st) (length (documents st)))
                    (sort_key rowid (documents st))
            \<and> concat (map move_rows moves) \<noteq> []
            \<and> documents st'
                = filter (\<lambda>r. \<not> rowid r \<le> rowid (last (concat (map move_rows moves))))
                    (documents st))
       \<and> (distinct (map rowid (documents st)) \<longrightarrow>
            (\<forall>r \<in> set (documents st). r \<in> set (documents st') \<or> held_cold w' (id_col r)))"
proof -
  from purgeOldData_shape [OF assms]
  consider
    (same) "documents st' = documents st" "out = Returned \<longrightarrow> moves = []"
  | (purged) sel i' where
      "sel \<noteq> []"
      "sel = sql_limit (numToPurge (config st) (length (documents st)))
               (sort_key rowid (documents st))"
      "purge_loop fuel P now (coldStorageThreshold (config st))
          (str_or (coldStoragePrefix (config st)) ''cold-storage'') w
          (num_or (currentColdStorageIndex (config st)) 0) sel
         = Some (Returned, w', i', moves)"
      "out = Returned"
      "documents st' = filter (\<lambda>r. \<not> rowid r \<le> rowid (last sel)) (documents st)"
    by blast
  then show ?thesis
  proof cases
    case same
    then show ?thesis by auto
  next
    case purged
    from purge_loop_invariant [OF purged(3) refl] purge_loop_held [OF purged(3) refl]
    have inv: "list_all move_ok moves" "concat (map move_rows moves) = sel"
      "\<forall>r \<in> set sel. held_cold w' (id_col r)"
      by blast+
    have safe: "r \<in> set (documents st') \<or> held_cold w' (id_col r)"
      if d: "distinct (map rowid (documents st))" and r: "r \<in> set (documents st)" for r
    proof (cases "rowid r \<le> rowid (last sel)")
      case True
      from oldest_covers_deleted [OF d purged(2,1) r True] inv(3)
      show ?thesis by blast
    next
      case False
      with r purged(5) show ?thesis by simp
    qed
    show ?thesis
      using purged(1,2,4,5) inv(1,2) safe by (simp only:) blast
  qed
qed


text \<open>
  Claim C4.  With a positive cold-shard capacity, only empty cold shards from some index
  on and enough iterations, the purge step returns or throws.  For every run that does:
  when a call of \<open>indexDocuments\<close> on a cold shard threw or returned
  \<open>success = false\<close>, the step throws and the table of the primary is unchanged;
  whenever the step throws the table is unchanged; when rows were deleted, every
  cold-shard call had succeeded, the rows sent were the selected oldest rows, and the
  deletion removed the rows with a row id up to that of the last row sent, in one
  statement.  With distinct row ids on the primary (which every statement of the
  store preserves), every row of the primary is afterwards still on the primary or
  its document id is held by a cold shard: as the id of a row in string mode, or as
  the row id of a row written in integer mode.
\<close>

theorem C4_delete_only_after_cold_writes:
  "(0 < coldStorageThreshold (config st)
      \<and> (\<forall>j \<ge> N. available_space P w (coldStorageThreshold (config st))
                      (str_or (coldStoragePrefix (config st)) ''cold-storage'') j
                    = coldStorageThreshold (config st))
      \<and> length (documents st) + nat (N - num_or (currentColdStorageIndex (config st)) 0) \<le> fuel
      \<longrightarrow> purgeOldData fuel P now st w \<noteq> None)
   \<and> (\<forall>out st' w' moves.
        purgeOldData fuel P now st w = Some (out, st', w', moves) \<longrightarrow>
          (\<not> list_all move_ok moves \<longrightarrow> out \<noteq> Returned \<and> documents st' = documents st)
        \<and> (out \<noteq> Returned \<longrightarrow> documents st' = documents st)
        \<and> (documents st' \<noteq> documents st \<longrightarrow>
              out = Returned \<and> list_all move_ok moves
              \<and> concat (map move_rows moves)
                  = sql_limit (numToPurge (config st) (length (documents st)))
                      (sort_key rowid (documents st))
              \<and> concat (map move_rows moves) \<noteq> []
              \<and> documents st'
                  = filter (\<lambda>r. \<not> rowid r \<le> rowid (last (concat (map move_rows moves))))
                      (documents st))
        \<and> (distinct (map rowid (documents st)) \<longrightarrow>
              (\<forall>r \<in> set (documents st). r \<in> set (documents st') \<or> held_cold w' (id_col r))))"
proof (intro conjI impI allI)
  assume "0 < coldStorageThreshold (config st)
      \<and> (\<forall>j \<ge> N. available_space P w (coldStorageThreshold (config st))
                      (str_or (coldStoragePrefix (config st)) ''cold-storage'') j
                    = coldStorageThreshold (config st))
      \<and> length (documents st) + nat (N - num_or (currentColdStorageIndex (config st)) 0) \<le> fuel"
  then show "purgeOldData fuel P now st w \<noteq> None"
    using purgeOldData_returns [of st N P w fuel now] by blast
next
  fix out st' w' moves
  assume run: "purgeOldData fuel P now st w = Some (out, st', w', moves)"
  note safe = purge_step_safe [OF run]
  {
    assume "\<not> list_all move_ok moves"
    with safe show "out \<noteq> Returned" by blast
  next
    assume "\<not> list_all move_ok moves"
    with safe show "documents st' = documents st" by blast
  next
    assume "out \<noteq> Returned"
    with safe show "documents st' = documents st" by blast
  next
    assume "documents st' \<noteq> documents st"
    with safe show "out = Returned" by blast
  next
    assume "documents st' \<noteq> documents st"
    with safe show "list_all move_ok moves" by blast
  next
    assume "documents st' \<noteq> documents st"
    with safe show "concat (map move_rows moves)
                  = sql_limit (numToPurge (config st) (length (documents st)))
                      (sort_key rowid (documents st))" by blast
  next
    assume "documents st' \<noteq> documents st"
    with safe show "concat (map move_rows moves) \<noteq> []" by blast
  next
    assume "documents st' \<noteq> documents st"
    with safe show "documents st'
                  = filter (\<lambda>r. \<not> rowid r \<le> rowid (last (concat (map move_rows moves))))
                      (documents st)" by blast
  next
    assume "distinct (map rowid (documents st))"
    with safe show "\<forall>r \<in> set (documents st). r \<in> set (documents st') \<or> held_cold w' (id_col r)"
      by blast
  }
qed

text \<open>A run that moves three of five rows into two cold shards of capacity two.\<close>

theorem C4_witness:
  "\<exists>out st' w' moves.
     purgeOldData 5 P_ex 1000 purge_primary fresh_world = Some (out, st', w', moves)
     \<and> out = Returned \<and> list_all move_ok moves
     \<and> map rowid (documents st') = [4, 5]
     \<and> list_all (\<lambda>r. r \<in> set (documents st') \<or> held_cold w' (id_col r)) (documents purge_primary)"
proof -
  have thr: "coldStorageThreshold (config purge_primary) = 2"
    by (simp add: coldStorageThreshold_def purge_primary_def purge_config_def truthy_num_def
          empty_config_def)
  have fresh: "\<forall>j \<ge> 0. available_space P_ex fresh_world (coldStorageThreshold (config purge_primary))
                      (str_or (coldStoragePrefix (config purge_primary)) ''cold-storage'') j
                    = coldStorageThreshold (config purge_primary)"
    by (simp add: available_space_def rpc_getStats_def fresh_world_def getStats_def
          sql_count_def fresh_shard_def)
  have fuel: "length (documents purge_primary)
                + nat (0 - num_or (currentColdStorageIndex (config purge_primary)) 0) \<le> 5"
    by (simp add: purge_primary_def purge_rows_def purge_config_def num_or_def truthy_num_def
          empty_config_def)
  have d: "distinct (map rowid (documents purge_primary))"
    by (simp add: purge_primary_def purge_rows_def)
  note c4 = C4_delete_only_after_cold_writes [of purge_primary 0 P_ex fresh_world 5 1000]
  from c4 thr fresh fuel have "purgeOldData 5 P_ex 1000 purge_primary fresh_world \<noteq> None"
    by simp
  with purge_example_run obtain out st' w' moves where
    run: "purgeOldData 5 P_ex 1000 purge_primary fresh_world = Some (out, st', w', moves)"
    and out: "out = Returned" and left: "map rowid (documents st') = [4, 5]"
    by (auto split: option.splits)
  from c4 run out d
  have "list_all move_ok moves"
    "\<forall>r \<in> set (documents purge_primary). r \<in> set (documents st') \<or> held_cold w' (id_col r)"
    by blast+
  then have "list_all move_ok moves
     \<and> list_all (\<lambda>r. r \<in> set (documents st') \<or> held_cold w' (id_col r)) (documents purge_primary)"
    by (simp add: list_all_iff)
  with run out left show ?thesis
    by (intro exI [of _ out] exI [of _ st'] exI [of _ w'] exI [of _ moves]) simp
qed

subsection \<open>Read-only shards, sync and the purge count\<close>

text \<open>
  A read-only shard accepts \<open>configure({isReadOnly: false})\<close> and indexes again
  afterwards.
\<close>

theorem C3_counterexample:
  "isReadOnly (config cold_example) = Some True
   \<and> isReadOnly (config (configure P_ex 0 cold_example (empty_config\<lparr>isReadOnly := Some False\<rparr>)))
       = Some False
   \<and> success (fst (indexDocuments
        (configure P_ex 0 cold_example (empty_config\<lparr>isReadOnly := Some False\<rparr>)) new_document))
   \<and> map id_col (documents (snd (indexDocuments
        (configure P_ex 0 cold_example (empty_config\<lparr>isReadOnly := Some False\<rparr>)) new_document)))
       = [JString ''a'', JString ''n'']"
  by code_simp

text \<open>
  Claim C3, as amended.  While \<open>isReadOnly\<close> is true, \<open>indexDocuments\<close> and
  \<open>syncDocuments\<close> return the read-only failure and leave the shard as it is;
  \<open>searchDocuments\<close> returns the hits of the local search and \<open>getStats\<close> reports the
  row count and the read-only flag.  \<open>configure\<close> is never rejected: it merges the
  request into the configuration, so a request with \<open>isReadOnly = false\<close> makes the
  shard writable again.
\<close>

theorem C3_read_only_rejects_writes:
  assumes "isReadOnly (config st) = Some True"
  shows "indexDocuments st docs =
           (\<lparr>success = False, indexed = 0, error = Some ''This is a read-only cold storage DO'',
             details = None, error_list = []\<rparr>, st)
       \<and> syncDocuments st docs =
           (\<lparr>sync_success = False, synced = 0,
             sync_error = Some ''This is a read-only cold storage DO'',
             sync_details = None, sync_error_list = []\<rparr>, st)
       \<and> searchDocuments P stub st params =
           (if query params = [] then []
            else fst (search P st (query params)
                        (case maxResults params of None \<Rightarrow> 100 | Some m \<Rightarrow> m)))
       \<and> stats_isReadOnly (getStats P st) = Some True
       \<and> (sql_fault st CountRows = None \<longrightarrow> count (getStats P st) = length (documents st))
       \<and> config (configure P now st newConfig) = merge_config (config st) newConfig
       \<and> (isReadOnly newConfig = Some False \<longrightarrow>
            isReadOnly (config (configure P now st newConfig)) = Some False)"
proof (intro conjI)
  from assms have ro: "truthy_bool (isReadOnly (config st))" by (simp add: truthy_bool_def)
  show "indexDocuments st docs =
           (\<lparr>success = False, indexed = 0, error = Some ''This is a read-only cold storage DO'',
             details = None, error_list = []\<rparr>, st)"
    using ro by (simp add: indexDocuments_def)
  show "syncDocuments st docs =
           (\<lparr>sync_success = False, synced = 0,
             sync_error = Some ''This is a read-only cold storage DO'',
             sync_details = None, sync_error_list = []\<rparr>, st)"
    using ro by (simp add: syncDocuments_def)
  show "searchDocuments P stub st params =
           (if query params = [] then []
            else fst (search P st (query params)
                        (case maxResults params of None \<Rightarrow> 100 | Some m \<Rightarrow> m)))"
    using ro by (simp add: searchDocuments_def Let_def)
  show "stats_isReadOnly (getStats P st) = Some True"
    using assms by (simp add: getStats_def truthy_bool_def split: sum.splits)
  show "sql_fault st CountRows = None \<longrightarrow> count (getStats P st) = length (documents st)"
    by (simp add: getStats_def sql_count_def)
  show "config (configure P now st newConfig) = merge_config (config st) newConfig"
    by (simp add: configure_def Let_def)
  show "isReadOnly newConfig = Some False \<longrightarrow>
            isReadOnly (config (configure P now st newConfig)) = Some False"
    by (simp add: configure_def Let_def merge_config_def spread_def)
qed

theorem C3_witness:
  "isReadOnly (config cold_example) = Some True
   \<and> \<not> success (fst (indexDocuments cold_example new_document))
   \<and> snd (indexDocuments cold_example new_document) = cold_example
   \<and> \<not> sync_success (fst (syncDocuments cold_example new_document))
   \<and> snd (syncDocuments cold_example new_document) = cold_example
   \<and> stats_isReadOnly (getStats P_ex cold_example) = Some True
   \<and> count (getStats P_ex cold_example) = 1"
proof -
  have ro: "isReadOnly (config cold_example) = Some True"
    by (simp add: cold_example_def)
  have nf: "sql_fault cold_example CountRows = None"
    by (simp add: cold_example_def fresh_shard_def)
  have len: "length (documents cold_example) = 1"
    by (simp add: cold_example_def)
  from C3_read_only_rejects_writes [OF ro, of new_document P_ex] ro nf len
  show ?thesis by simp
qed

text \<open>
  Claim C8.  For every shard and every batch, \<open>syncDocuments\<close> leaves the shard in
  the same state as \<open>indexDocuments\<close> (configuration, table, cache invalidations),
  and returns the same success flag, the same count, the same validation errors and
  the same failure details.
\<close>

theorem C8_sync_same_as_index:
  "snd (syncDocuments st docs) = snd (indexDocuments st docs)
   \<and> sync_success (fst (syncDocuments st docs)) = success (fst (indexDocuments st docs))
   \<and> synced (fst (syncDocuments st docs)) = indexed (fst (indexDocuments st docs))
   \<and> sync_error_list (fst (syncDocuments st docs)) = error_list (fst (indexDocuments st docs))
   \<and> sync_details (fst (syncDocuments st docs)) = details (fst (indexDocuments st docs))"
proof (cases "truthy_bool (isReadOnly (config st))")
  case True
  then show ?thesis by (simp add: syncDocuments_def indexDocuments_def)
next
  case ro: False
  let ?v = "validateDocuments docs (idType_or_string (config st))"
  show ?thesis
  proof (cases "valid ?v")
    case False
    with ro show ?thesis by (simp add: syncDocuments_def indexDocuments_def Let_def)
  next
    case v: True
    show ?thesis
    proof (cases "data ?v")
      case None
      with ro v show ?thesis by (simp add: syncDocuments_def indexDocuments_def Let_def)
    next
      case (Some d)
      show ?thesis
      proof (cases "length d > 0")
        case False
        with ro v Some show ?thesis by (simp add: syncDocuments_def indexDocuments_def Let_def)
      next
        case True
        obtain s1 e1 where i: "indexDocumentsInternal st d = (s1, e1)" by force
        with ro v Some True show ?thesis
          by (cases e1) (simp_all add: syncDocuments_def indexDocuments_def Let_def)
      qed
    qed
  qed
qed

lemma index_two_documents:
  "success (fst (indexDocuments fresh_shard two_documents))
   \<and> indexed (fst (indexDocuments fresh_shard two_documents)) = 2
   \<and> map content (documents (snd (indexDocuments fresh_shard two_documents)))
       = [''javascript programming tutorial'', ''react hooks'']
   \<and> cache_invalidations (snd (indexDocuments fresh_shard two_documents)) = 1"
  by code_simp

theorem C8_witness:
  "sync_success (fst (syncDocuments fresh_shard two_documents))
   \<and> synced (fst (syncDocuments fresh_shard two_documents)) = 2
   \<and> map content (documents (snd (syncDocuments fresh_shard two_documents)))
       = [''javascript programming tutorial'', ''react hooks'']
   \<and> cache_invalidations (snd (syncDocuments fresh_shard two_documents)) = 1"
  using C8_sync_same_as_index [of fresh_shard two_documents] index_two_documents
  by simp





subsection \<open>Result bounds of the search and the alarm after a throw\<close>

text \<open>
  The hit list is capped by \<open>maxResults\<close> when the first \<open>MATCH\<close> statement does not
  raise and when cold results are merged; through the fallback it is capped by 50.
  A step that throws leaves the cursor and the alarm as they were.
\<close>

lemma effectiveMaxResults_le: "effectiveMaxResults c m \<le> m"
  by (cases c) (simp_all add: effectiveMaxResults_def)

lemma sql_match_length: "sql_match P st q n = Some rs \<Longrightarrow> length rs \<le> n"
  by (auto simp: sql_match_def split: option.splits)

lemma search_primary_capped:
  assumes "preprocessQuery q = [] \<or> isTooCommon (analyzeQuery (preprocessQuery q))
           \<or> sql_match P st (ftsQuery (preprocessQuery q))
                (effectiveMaxResults (estimatedCost (analyzeQuery (preprocessQuery q))) m) \<noteq> None"
  shows "length (fst (search P st q m)) \<le> m"
proof (cases "preprocessQuery q = [] \<or> isTooCommon (analyzeQuery (preprocessQuery q))")
  case True
  then show ?thesis by (auto simp: search_def Let_def)
next
  case False
  let ?e = "effectiveMaxResults (estimatedCost (analyzeQuery (preprocessQuery q))) m"
  from False assms obtain rs where rs: "sql_match P st (ftsQuery (preprocessQuery q)) ?e = Some rs"
    by auto
  with False have "fst (search P st q m) = rs" by (simp add: search_def Let_def)
  moreover have "length rs \<le> ?e" using rs by (rule sql_match_length)
  ultimately show ?thesis using effectiveMaxResults_le [of _ m] by (metis le_trans)
qed

lemma search_fallback_capped: "length (fst (search P st q m)) \<le> max m 50"
proof -
  let ?e = "effectiveMaxResults (estimatedCost (analyzeQuery (preprocessQuery q))) m"
  have e: "?e \<le> m" by (rule effectiveMaxResults_le)
  show ?thesis
  proof (cases "preprocessQuery q = [] \<or> isTooCommon (analyzeQuery (preprocessQuery q))")
    case True
    then show ?thesis by (auto simp: search_def Let_def)
  next
    case False
    show ?thesis
    proof (cases "sql_match P st (ftsQuery (preprocessQuery q)) ?e")
      case (Some rs)
      with False have "fst (search P st q m) = rs" by (simp add: search_def Let_def)
      with sql_match_length [OF Some] e show ?thesis by simp
    next
      case None
      show ?thesis
      proof (cases "sql_match P st (quoted_phrase q) 50")
        case n2: None
        with None False show ?thesis by (simp add: search_def Let_def)
      next
        case (Some fb)
        with None False have "fst (search P st q m) = fb" by (simp add: search_def Let_def)
        with sql_match_length [OF Some] show ?thesis by simp
      qed
    qed
  qed
qed

lemma searchDocuments_cold_merge_capped:
  assumes "cold = Some True" and "\<not> truthy_bool (isReadOnly (config st))"
    and "truthy_num (currentColdStorageIndex (config st))"
  shows "length (searchDocuments P stub st \<lparr>query = q, includeCold = cold, maxResults = Some m\<rparr>) \<le> m"
  using assms by (simp add: searchDocuments_def Let_def)

lemma searchDocuments_primary_capped:
  assumes "sql_match P st (ftsQuery (preprocessQuery q))
                (effectiveMaxResults (estimatedCost (analyzeQuery (preprocessQuery q))) m) \<noteq> None"
  shows "length (searchDocuments P stub st \<lparr>query = q, includeCold = cold, maxResults = Some m\<rparr>) \<le> m"
proof -
  have "length (fst (search P st q m)) \<le> m"
    using assms by (intro search_primary_capped) simp
  then show ?thesis by (simp add: searchDocuments_def Let_def)
qed

lemma syncToReplicas_threw_keeps_cursor:
  "syncToReplicas P st w = (Threw msg, st', w') \<Longrightarrow> st' = st"
  by (auto simp: syncToReplicas_def Let_def split: sum.splits if_splits prod.splits outcome.splits)

lemma purgeOldData_alarm_time:
  assumes "purgeOldData fuel P now st w = Some (out, st', w', moves)"
  shows "alarm_time st' = alarm_time st"
proof -
  have w: "alarm_time s' = alarm_time s" if "sql_write s stmt = Inr s'" for s s' stmt
    using that by (auto simp: sql_write_def split: option.splits)
  show ?thesis
    using assms w
    by (auto simp: purgeOldData_def Let_def
             split: sum.splits if_splits option.splits prod.splits outcome.splits)
qed

lemma alarm_threw_not_rearmed:
  assumes "alarm fuel P now st w = Some (Threw msg, st', w')"
  shows "alarm_time st' = alarm_time st"
proof -
  have ro: "\<not> truthy_bool (isReadOnly (config st))"
    using assms by (auto simp: alarm_def)
  obtain out1 st1 w1 where s1:
    "(if (case replicas (config st) of None \<Rightarrow> False | Some rs \<Rightarrow> length rs \<noteq> 0)
      then syncToReplicas P st w else (Returned, st, w)) = (out1, st1, w1)"
    by (metis prod_cases3)
  have a1: "alarm_time st1 = alarm_time st"
    using s1 by (auto simp: syncToReplicas_def Let_def
                      split: sum.splits if_splits prod.splits outcome.splits)
  show ?thesis
  proof (cases out1)
    case (Threw m1)
    with assms ro s1 have "st' = st1" by (simp add: alarm_def Let_def)
    with a1 show ?thesis by simp
  next
    case Returned
    show ?thesis
    proof (cases "truthy_num (purgeThresholdDocs (config st1))")
      case False
      with assms ro s1 Returned show ?thesis by (simp add: alarm_def Let_def)
    next
      case True
      show ?thesis
      proof (cases "purgeOldData fuel P now st1 w1")
        case None
        with assms ro s1 Returned True show ?thesis by (simp add: alarm_def Let_def)
      next
        case (Some q)
        obtain o2 st2 w2 ms where q: "q = (o2, st2, w2, ms)" by (cases q) auto
        from purgeOldData_alarm_time [OF Some [unfolded q]] a1
        have a2: "alarm_time st2 = alarm_time st" by simp
        from assms ro s1 Returned True Some q have "o2 \<noteq> Returned \<and> st' = st2"
          by (cases o2) (simp_all add: alarm_def Let_def)
        with a2 show ?thesis by simp
      qed
    qed
  qed
qed

subsection \<open>The replication cursor\<close>

lemma fold_max_rowid:
  "newDocs \<noteq> [] \<Longrightarrow>
   fold max (map rowid newDocs) (rowid (hd newDocs)) = Max (rowid ` set newDocs)"
proof -
  assume ne: "newDocs \<noteq> []"
  have "fold max (map rowid newDocs) (rowid (hd newDocs))
          = Max (set (rowid (hd newDocs) # map rowid newDocs))"
    by (simp only: Max.set_eq_fold)
  also have "set (rowid (hd newDocs) # map rowid newDocs) = rowid ` set newDocs"
    using ne by auto
  finally show ?thesis .
qed

lemma select_since_above:
  "sql_select_since st n = Inr newDocs \<Longrightarrow> r \<in> set newDocs \<Longrightarrow> n < rowid r"
  by (auto simp: sql_select_since_def split: option.splits)

text \<open>
  What the replication step does with the cursor on a run that finds new rows: when
  the call to a replica fails (it throws or returns \<open>success = false\<close>) the step
  throws and the cursor \<open>lastSyncRowId\<close> is left as it was; when every call succeeds
  the cursor is set to the largest row id of the new rows, which is greater than the
  old cursor.  A replica whose stub cannot be resolved is skipped, and one failing
  call makes the whole fan-out fail.
\<close>

lemma syncToReplicas_cursor:
  assumes "sql_select_since st (num_or (kv_lastSyncRowId st) 0) = Inr newDocs"
    and "newDocs \<noteq> []"
    and "rs = (case replicas (config st) of None \<Rightarrow> [] | Some l \<Rightarrow> l)"
  shows "(\<forall>msg. fst (sync_all P w rs (map row_document newDocs)) = Threw msg \<longrightarrow>
            syncToReplicas P st w
              = (Threw msg, st, snd (sync_all P w rs (map row_document newDocs))))
       \<and> (fst (sync_all P w rs (map row_document newDocs)) = Returned \<longrightarrow>
            syncToReplicas P st w
              = (Returned, st\<lparr>kv_lastSyncRowId := Some (Max (rowid ` set newDocs))\<rparr>,
                 snd (sync_all P w rs (map row_document newDocs))))
       \<and> num_or (kv_lastSyncRowId st) 0 < Max (rowid ` set newDocs)
       \<and> (\<forall>r w0 docs. getReplicaStub P r = None \<longrightarrow> syncToReplica P w0 r docs = (Returned, w0))
       \<and> (\<forall>r a w0 docs.
             getReplicaStub P r = Some a
             \<and> (rpc_down w0 a Rpc_syncDocuments
                  \<or> \<not> sync_success (fst (syncDocuments (objects w0 a) docs))) \<longrightarrow>
             (\<exists>m. fst (syncToReplica P w0 r docs) = Threw m))
       \<and> (\<forall>r rs' w0 docs m.
             fst (syncToReplica P w0 r docs) = Threw m
             \<or> (fst (syncToReplica P w0 r docs) = Returned
                 \<and> fst (sync_all P (snd (syncToReplica P w0 r docs)) rs' docs) = Threw m) \<longrightarrow>
             fst (sync_all P w0 (r # rs') docs) = Threw m)"
proof (intro conjI allI impI)
  let ?sa = "sync_all P w rs (map row_document newDocs)"
  obtain out w' where sa: "?sa = (out, w')" by force
  have len: "length newDocs \<noteq> 0" using assms(2) by simp
  show "syncToReplicas P st w = (Threw msg, st, snd ?sa)" if "fst ?sa = Threw msg" for msg
    using that assms(1,3) len sa
    by (simp add: syncToReplicas_def Let_def)
  show "syncToReplicas P st w
          = (Returned, st\<lparr>kv_lastSyncRowId := Some (Max (rowid ` set newDocs))\<rparr>, snd ?sa)"
    if "fst ?sa = Returned"
    using that assms(1,3) len sa fold_max_rowid [OF assms(2)]
    by (simp add: syncToReplicas_def Let_def)
  show "num_or (kv_lastSyncRowId st) 0 < Max (rowid ` set newDocs)"
  proof -
    have "Max (rowid ` set newDocs) \<in> rowid ` set newDocs"
      using assms(2) by (intro Max_in) simp_all
    then obtain r where "r \<in> set newDocs" "Max (rowid ` set newDocs) = rowid r" by auto
    with select_since_above [OF assms(1)] show ?thesis by simp
  qed
  show "syncToReplica P w0 r docs = (Returned, w0)" if "getReplicaStub P r = None" for r w0 docs
    using that by (simp add: syncToReplica_def)
  show "\<exists>m. fst (syncToReplica P w0 r docs) = Threw m"
    if "getReplicaStub P r = Some a
        \<and> (rpc_down w0 a Rpc_syncDocuments
             \<or> \<not> sync_success (fst (syncDocuments (objects w0 a) docs)))" for r a w0 docs
    using that by (auto simp: syncToReplica_def Let_def split: prod.splits)
  show "fst (sync_all P w0 (r # rs') docs) = Threw m"
    if "fst (syncToReplica P w0 r docs) = Threw m
        \<or> (fst (syncToReplica P w0 r docs) = Returned
            \<and> fst (sync_all P (snd (syncToReplica P w0 r docs)) rs' docs) = Threw m)"
    for r rs' w0 docs m
    using that by (auto simp: Let_def split: prod.splits outcome.splits)
qed

lemma replicated_primary_run:
  "sql_select_since replicated_primary (num_or (kv_lastSyncRowId replicated_primary) 0)
     = Inr (documents replicated_primary)
   \<and> map rowid (documents replicated_primary) = [1, 2]
   \<and> replicas (config replicated_primary) = Some [weur_replica]
   \<and> fst (sync_all P_ex fresh_world [weur_replica]
            (map row_document (documents replicated_primary))) = Returned
   \<and> map content (documents (objects
         (snd (sync_all P_ex fresh_world [weur_replica]
                 (map row_document (documents replicated_primary))))
         (RegionReplica_DO ''weur'')))
       = [''javascript programming tutorial'', ''react hooks'']"
  by code_simp

text \<open>A primary with two new rows and one replica that accepts them.\<close>

lemma syncToReplicas_cursor_example:
  "kv_lastSyncRowId replicated_primary = None
   \<and> fst (syncToReplicas P_ex replicated_primary fresh_world) = Returned
   \<and> kv_lastSyncRowId (fst (snd (syncToReplicas P_ex replicated_primary fresh_world))) = Some 2"
proof -
  have s: "sql_select_since replicated_primary (num_or (kv_lastSyncRowId replicated_primary) 0)
     = Inr (documents replicated_primary)"
    and ids: "map rowid (documents replicated_primary) = [1, 2]"
    and rs: "[weur_replica] = (case replicas (config replicated_primary) of None \<Rightarrow> [] | Some l \<Rightarrow> l)"
    and ok: "fst (sync_all P_ex fresh_world [weur_replica]
            (map row_document (documents replicated_primary))) = Returned"
    using replicated_primary_run by simp_all
  have ne: "documents replicated_primary \<noteq> []" using ids by auto
  have "rowid ` set (documents replicated_primary) = set (map rowid (documents replicated_primary))"
    by simp
  then have mx: "Max (rowid ` set (documents replicated_primary)) = 2"
    unfolding ids by simp
  have c: "kv_lastSyncRowId replicated_primary = None" by code_simp
  from syncToReplicas_cursor [OF s ne rs, of P_ex fresh_world] ok mx c
  show ?thesis by simp
qed

subsection \<open>Evaluations\<close>




text \<open>
  Claim C6 at a failing input.  The shard holds twelve matching rows and its storage
  fails on the first \<open>MATCH\<close> statement; with \<open>maxResults = 10\<close> the quoted-phrase
  query with \<open>LIMIT 50\<close> runs and \<open>searchDocuments\<close> returns all twelve rows.
\<close>

theorem C6_fallback_exceeds_maxResults:
  "length (searchDocuments P_ex (\<lambda>n p. None) flaky_shard
             \<lparr>query = ''tutorial'', includeCold = Some False, maxResults = Some 10\<rparr>) = 12
   \<and> snd (search P_ex flaky_shard ''tutorial'' 10)
       = [MatchQuery ''tutorial'' 10, MatchQuery (quoted_phrase ''tutorial'') 50]"
  by code_simp

text \<open>
  Claim C1 at a failing input.  The primary has one replica and has indexed the
  document \<open>The cat is funny meme\<close>, whose filtered content is empty, so there is
  one new row above the cursor.  The replica rejects the row, \<open>syncToReplica\<close> throws
  again what it caught, and the alarm throws: the failure is not absorbed, the cursor
  \<open>lastSyncRowId\<close> is not advanced and the next alarm is not set.
\<close>

theorem C1_replica_failure_fails_tick:
  "map rowid (documents sync_primary) = [1]
   \<and> map content (documents sync_primary) = ['''']
   \<and> kv_lastSyncRowId sync_primary = None
   \<and> alarm_time sync_primary = Some 5000
   \<and> (case alarm 5 P_ex 5000 sync_primary fresh_world of
         Some (out, st', w') \<Rightarrow>
           out = Threw ''Invalid documents''
           \<and> kv_lastSyncRowId st' = None
           \<and> alarm_time st' = Some 5000
       | None \<Rightarrow> False)"
  by code_simp

text \<open>
  Claim C2 at a failing input.  The first tick moves three rows into the first cold
  shard, which has room for ten, and marks it read-only.  After three more documents
  the second tick sends rows to the same shard, the shard refuses them, the purge
  step throws and the alarm ends without setting the next alarm.
\<close>

theorem C2_purge_error_stops_alarm:
  "(case alarm 5 P_ex 5000 stuck_primary fresh_world of
      Some (out1, st1, w1) \<Rightarrow>
        out1 = Returned
        \<and> alarm_time st1 = Some 65000
        \<and> map rowid (documents st1) = [4, 5]
        \<and> isReadOnly (config (objects w1 (ColdStorage_DO ''cold-storage-0''))) = Some True
        \<and> length (documents (objects w1 (ColdStorage_DO ''cold-storage-0''))) = 3
        \<and> (case alarm 5 P_ex 65000 (snd (indexDocuments st1 later_documents)) w1 of
              Some (out2, st2, w2) \<Rightarrow>
                out2 = Threw (''Failed to move documents to cold storage cold-storage-0: ''
                              @ ''This is a read-only cold storage DO'')
                \<and> alarm_time st2 = Some 65000
                \<and> map rowid (documents st2) = [4, 5, 6, 7, 8]
            | None \<Rightarrow> False)
    | None \<Rightarrow> False)"
  by code_simp

lemma long_word_facts:
  "length long_word = 62
   \<and> nonempty_pieces (replace_nonword long_word) = [long_word]
   \<and> toLowerCase long_word \<notin> set STOP_WORDS
   \<and> preprocessContent long_word = []"
  by code_simp

text \<open>
  A word of 62 characters is retained by \<open>preprocessQuery\<close>, and the query
  \<open>x 7 q\<close> of three words of one character is processed to the empty string and
  answered with the empty list.
\<close>

theorem C10_witness:
  "length long_word = 62
   \<and> long_word \<in> set (nonempty_pieces (preprocessQuery long_word))
   \<and> nonempty_pieces (replace_nonword ''x 7 q'') = [''x'', ''7'', ''q'']
   \<and> preprocessQuery ''x 7 q'' = []
   \<and> search P_ex fresh_shard ''x 7 q'' 100 = ([], [])
   \<and> searchDocuments P_ex (cold_search_stub P_ex fresh_world) fresh_shard
        \<lparr>query = ''x 7 q'', includeCold = Some True, maxResults = Some 100\<rparr> = []"
proof -
  have 1: "long_word \<in> set (nonempty_pieces (replace_nonword long_word))"
    "2 \<le> length long_word" "toLowerCase long_word \<notin> set STOP_WORDS"
    using long_word_facts by simp_all
  from C10_query_tokens_at_least_two [of long_word] 1
  have a: "long_word \<in> set (nonempty_pieces (preprocessQuery long_word))" by blast
  have 2: "\<forall>w \<in> set (nonempty_pieces (replace_nonword ''x 7 q'')). length w = 1"
    by (simp add: preprocessQuery_x7q)
  from C10_query_tokens_at_least_two
         [of "''x 7 q''" P_ex fresh_shard 100 fresh_world "Some True" "Some 100"] 2
  have b: "preprocessQuery ''x 7 q'' = []"
    "search P_ex fresh_shard ''x 7 q'' 100 = ([], [])"
    "searchDocuments P_ex (cold_search_stub P_ex fresh_world) fresh_shard
        \<lparr>query = ''x 7 q'', includeCold = Some True, maxResults = Some 100\<rparr> = []"
    by blast+
  from a b long_word_facts preprocessQuery_x7q show ?thesis by simp
qed

end
